theory Spec2Isabelle
  imports Main
begin

section \<open>Values and railroad nodes\<close>

text \<open>
  The library \<^verbatim>\<open>railroad.js\<close> builds railroad nodes, plain JavaScript objects
  \<^verbatim>\<open>{ op: 'html', content: c }\<close> and \<^verbatim>\<open>{ op: o, children: [...] }\<close>, and renders them.
  Its functions accept strings wherever a node is expected.

  A JavaScript string is modelled as a \<^typ>\<open>string\<close> holding its UTF-8 encoding, so that
  \<^verbatim>\<open>===\<close> on strings is equality of lists. An object is \<open>Obj op content children\<close>,
  where an absent property is \<open>None\<close>. \<open>Undefined\<close> and \<open>Null\<close> are the two values on which
  a property read throws, and \<open>Other\<close> stands for any further value that is neither a
  string nor an object with a string \<^verbatim>\<open>op\<close> (a number, a boolean, an object without
  \<^verbatim>\<open>op\<close>): reading \<^verbatim>\<open>.op\<close> of it gives something that is not a string.
\<close>

datatype jsval =
    Str string
  | Obj (op: string) (content: "string option") (children: "jsval list option")
  | Undefined
  | Null
  | Other

text \<open>
  The source throws \<^verbatim>\<open>new Error(content)\<close> in \<open>toNode\<close> and \<^verbatim>\<open>new Error(node.op)\<close> in
  \<open>appendToDOM\<close>; the JavaScript runtime throws a \<^verbatim>\<open>TypeError\<close> when a property of
  \<^verbatim>\<open>undefined\<close> or \<^verbatim>\<open>null\<close> is read. The first two are named after the specification.
\<close>

datatype error =
    InvalidNodeError jsval
  | UnsupportedNodeError string
  | TypeError

text \<open>The glyph \<^verbatim>\<open>'\u25b6'\<close> that marks the empty branch of \<open>maybe\<close>, in UTF-8.\<close>

definition bypass :: string where
  "bypass = [CHR 0xE2, CHR 0x96, CHR 0xB6]"

text \<open>
  \<^verbatim>\<open>
  function toNode(content) {
    if (typeof content === 'string') {
      return { op: 'html', content: content };
    } else if (typeof content === 'object' && typeof content.op === 'string') {
      return content;
    }
    throw new Error(content);
  }
  \<close>
  \<^verbatim>\<open>typeof null\<close> is \<^verbatim>\<open>'object'\<close>, so \<^verbatim>\<open>null\<close> reaches \<^verbatim>\<open>content.op\<close>.
\<close>

fun toNode :: "jsval \<Rightarrow> error + jsval" where
  "toNode (Str s) = Inr (Obj ''html'' (Some s) None)"
| "toNode (Obj opr c k) = Inr (Obj opr c k)"
| "toNode Null = Inl TypeError"
| "toNode Undefined = Inl (InvalidNodeError Undefined)"
| "toNode Other = Inl (InvalidNodeError Other)"

section \<open>The builder\<close>

text \<open>
  Where a string is required, an absent property (\<^verbatim>\<open>undefined\<close>) is converted to the
  string \<^verbatim>\<open>'undefined'\<close>: \<^verbatim>\<open>alreadySeen[child.content]\<close> with an absent
  \<^verbatim>\<open>content\<close> uses that key, and \<^verbatim>\<open>div.innerHTML = node.content\<close> stores that text.
\<close>

fun toString :: "string option \<Rightarrow> string" where
  "toString (Some s) = s"
| "toString None = ''undefined''"

text \<open>
  \<^verbatim>\<open>
  function or(var_args) {
    var options = [];
    var alreadySeen = {};
    function addOption(child) {
      switch (child.op) {
        case '|':
          for (var i = 0, n = child.children.length; i < n; ++i) {
            addOption(child.children[i]);
          }
          break;
        case 'html':
          if (alreadySeen[child.content] !== alreadySeen) {
            alreadySeen[child.content] = alreadySeen;
            options.push(child);
          }
          break;
        default:
          options.push(toNode(child));
          break;
      }
    }
    for (var i = 0, n = arguments.length; i < n; ++i) {
      addOption(arguments[i]);
    }
    if (options.length == 1) {
      return options[0];
    }
    return { op: '|', children: options };
  }
  \<close>
  The state of the closure is the pair of \<^verbatim>\<open>options\<close> and the set of keys of
  \<^verbatim>\<open>alreadySeen\<close> that hold \<^verbatim>\<open>alreadySeen\<close> itself. A string has no \<^verbatim>\<open>op\<close>, so a string
  argument takes the default branch. The key \<^verbatim>\<open>'__proto__'\<close> is the accessor of
  \<^verbatim>\<open>Object.prototype\<close>: reading it never gives \<^verbatim>\<open>alreadySeen\<close>, and assigning
  \<^verbatim>\<open>alreadySeen\<close> to it would make the object its own prototype, which throws a
  \<^verbatim>\<open>TypeError\<close>. Every other inherited property is shadowed by the assignment.
\<close>

type_synonym or_state = "jsval list \<times> string set"

fun addOption :: "jsval \<Rightarrow> or_state \<Rightarrow> error + or_state"
  and addOptions :: "jsval list \<Rightarrow> or_state \<Rightarrow> error + or_state" where
  "addOption Undefined st = Inl TypeError"
| "addOption Null st = Inl TypeError"
| "addOption (Obj opr c k) (options, alreadySeen) =
     (if opr = ''|'' then
        (case k of None \<Rightarrow> Inl TypeError
         | Some cs \<Rightarrow> addOptions cs (options, alreadySeen))
      else if opr = ''html'' then
        (if toString c = ''__proto__'' then Inl TypeError
         else if toString c \<notin> alreadySeen
           then Inr (options @ [Obj opr c k], insert (toString c) alreadySeen)
         else Inr (options, alreadySeen))
      else
        (case toNode (Obj opr c k) of Inl e \<Rightarrow> Inl e
         | Inr n \<Rightarrow> Inr (options @ [n], alreadySeen)))"
| "addOption child (options, alreadySeen) =
     (case toNode child of Inl e \<Rightarrow> Inl e
      | Inr n \<Rightarrow> Inr (options @ [n], alreadySeen))"
| "addOptions [] st = Inr st"
| "addOptions (child # rest) st =
     (case addOption child st of Inl e \<Rightarrow> Inl e
      | Inr st' \<Rightarrow> addOptions rest st')"

definition or_node :: "jsval list \<Rightarrow> error + jsval" where
  "or_node arguments =
     (case addOptions arguments ([], {}) of Inl e \<Rightarrow> Inl e
      | Inr (options, alreadySeen) \<Rightarrow>
          if length options = 1 then Inr (options ! 0)
          else Inr (Obj ''|'' None (Some options)))"

text \<open>
  \<^verbatim>\<open>
  function maybe(child) { return or(toNode('\u25b6'), toNode(child)); }
  function any(child) { return maybe(many(child)); }
  function many(child) { return { op: '+', children: [child] }; }
  \<close>
\<close>

definition maybe :: "jsval \<Rightarrow> error + jsval" where
  "maybe child =
     (case toNode (Str bypass) of Inl e \<Rightarrow> Inl e
      | Inr marker \<Rightarrow>
          (case toNode child of Inl e \<Rightarrow> Inl e
           | Inr n \<Rightarrow> or_node [marker, n]))"

definition many :: "jsval \<Rightarrow> jsval" where
  "many child = Obj ''+'' None (Some [child])"

definition any :: "jsval \<Rightarrow> error + jsval" where
  "any child = maybe (many child)"

text \<open>
  \<^verbatim>\<open>
  function each(var_args) {
    var items = [];
    function addItem(item) {
      if (item.op === '.') {
        for (var i = 0, n = item.children.length; i < n; ++i) {
          addItem(item.children[i]);
        }
      } else {
        items.push(toNode(item));
      }
    }
    for (var i = 0, n = arguments.length; i < n; ++i) {
      addItem(arguments[i]);
    }
    if (items.length === 1) {
      return items[0];
    }
    return { op: '.', children: items };
  }
  \<close>
\<close>

fun addItem :: "jsval \<Rightarrow> jsval list \<Rightarrow> error + jsval list"
  and addItems :: "jsval list \<Rightarrow> jsval list \<Rightarrow> error + jsval list" where
  "addItem Undefined items = Inl TypeError"
| "addItem Null items = Inl TypeError"
| "addItem (Obj opr c k) items =
     (if opr = ''.'' then
        (case k of None \<Rightarrow> Inl TypeError
         | Some cs \<Rightarrow> addItems cs items)
      else
        (case toNode (Obj opr c k) of Inl e \<Rightarrow> Inl e
         | Inr n \<Rightarrow> Inr (items @ [n])))"
| "addItem item items =
     (case toNode item of Inl e \<Rightarrow> Inl e
      | Inr n \<Rightarrow> Inr (items @ [n]))"
| "addItems [] items = Inr items"
| "addItems (item # rest) items =
     (case addItem item items of Inl e \<Rightarrow> Inl e
      | Inr items' \<Rightarrow> addItems rest items')"

definition each :: "jsval list \<Rightarrow> error + jsval" where
  "each arguments =
     (case addItems arguments [] of Inl e \<Rightarrow> Inl e
      | Inr items \<Rightarrow>
          if length items = 1 then Inr (items ! 0)
          else Inr (Obj ''.'' None (Some items)))"

section \<open>The renderer\<close>

text \<open>
  \<open>appendToDOM\<close> creates one \<^verbatim>\<open>DIV\<close> per node and \<^verbatim>\<open>SPAN\<close>s for the connecting lines,
  and sets their inline styles. An element is modelled with the properties the source
  writes and reads: its style (a map from property names to values) and its content,
  and, for a \<^verbatim>\<open>DIV\<close>, the size that the browser reports as \<^verbatim>\<open>offsetWidth\<close> and
  \<^verbatim>\<open>offsetHeight\<close> and its child nodes in the order in which they were appended: the
  \<^verbatim>\<open>DIV\<close>s of the children of the node, which are all appended before the first
  \<^verbatim>\<open>SPAN\<close> is created, and then the \<^verbatim>\<open>SPAN\<close>s.

  A style value \<open>Px n\<close> is the string \<^verbatim>\<open>n + 'px'\<close>; \<open>Css s\<close> is any other string.
  Numbers are modelled as integers: the sizes reported by the browser are integers, and
  the sums formed from them are exact in JavaScript below \<open>2 ^ 53\<close>.
\<close>

datatype cssval = Px int | Css string

type_synonym style = "string \<rightharpoonup> cssval"

datatype span = Span (spanStyle: style) (textContent: "string option")

datatype element =
  Div (style: style) (innerHTML: "string option") (childDivs: "element list")
    (childSpans: "span list") (offsetWidth: int) (offsetHeight: int)

fun setStyle :: "string \<Rightarrow> cssval \<Rightarrow> element \<Rightarrow> element" where
  "setStyle name v (Div st html divs sps w h) = Div (st(name \<mapsto> v)) html divs sps w h"

text \<open>
  Reading a property of an element by name. Of the names that the source reads, only
  \<^verbatim>\<open>offsetWidth\<close> and \<^verbatim>\<open>offsetHeight\<close> exist on an element; reading any other gives
  \<^verbatim>\<open>undefined\<close>, modelled as \<open>None\<close>.
\<close>

definition getProperty :: "element \<Rightarrow> string \<Rightarrow> int option" where
  "getProperty e name =
     (if name = ''offsetWidth'' then Some (offsetWidth e)
      else if name = ''offsetHeight'' then Some (offsetHeight e)
      else None)"

text \<open>
  \<^verbatim>\<open>x >> 1\<close> converts \<open>x\<close> to a signed 32-bit integer and shifts it right by one bit,
  keeping the sign.
\<close>

definition toInt32 :: "int \<Rightarrow> int" where
  "toInt32 x = (x + 2 ^ 31) mod 2 ^ 32 - 2 ^ 31"

definition shr1 :: "int \<Rightarrow> int" where
  "shr1 x = toInt32 x div 2"

text \<open>
  \<^verbatim>\<open>
  function renderArrowhead(arrowheadText, parent) {
    var arrowhead = document.createElement('SPAN');
    parent.appendChild(arrowhead);
    arrowhead.appendChild(document.createTextNode(arrowheadText));
    arrowhead.style.position = 'absolute';
    arrowhead.style.display = 'inline-block';
    arrowhead.style.left = '0px';
    arrowhead.style.top = '-5px';
    arrowhead.style.width = '100%';
    arrowhead.style.height = '8px';
    arrowhead.style.fontSize = '8px';
    arrowhead.style.textAlign = 'center';
    arrowhead.style.verticalAlign = 'middle';
  }
  \<close>
  The functions that append to \<^verbatim>\<open>div\<close> return the elements they append, in order.
\<close>

definition renderArrowhead :: "string \<Rightarrow> span list" where
  "renderArrowhead arrowheadText =
     [Span [''position'' \<mapsto> Css ''absolute'', ''display'' \<mapsto> Css ''inline-block'',
            ''left'' \<mapsto> Px 0, ''top'' \<mapsto> Px (- 5), ''width'' \<mapsto> Css ''100%'',
            ''height'' \<mapsto> Px 8, ''fontSize'' \<mapsto> Px 8, ''textAlign'' \<mapsto> Css ''center'',
            ''verticalAlign'' \<mapsto> Css ''middle'']
        (Some arrowheadText)]"

text \<open>
  \<^verbatim>\<open>
  function rightArrow(x, width, y, height, junctionX) {
    if (!height) {
      var span = document.createElement('SPAN');
      span.style.position = 'absolute';
      span.style.left = x + 'px';
      span.style.width = width + 'px';
      span.style.top = y + 'px';
      span.style.height = '1px';
      span.style.background = '#000';
      div.appendChild(span);
    } else {
      if (junctionX === void 0) { junctionX = x + (width >> 1); }
      var halfHeight = (Math.abs(height) + 1) >> 1;
      var left = document.createElement('SPAN');
      left.style.position = 'absolute';
      left.style.left = x + 'px';
      left.style.width = (junctionX - x) + 'px';
      if (height > 0) {
        left.style.top = y + 'px';
        left.style.height = halfHeight + 'px';
        left.style.borderTop = '1px solid black';
        left.style.borderTopRightRadius = '6px';
      } else {
        left.style.top = (y - halfHeight) + 'px';
        left.style.height = halfHeight + 'px';
        left.style.borderBottom = '1px solid black';
        left.style.borderBottomRightRadius = '6px';
      }
      left.style.borderRight = '1px solid black';
      div.appendChild(left);
      var right = document.createElement('SPAN');
      right.style.position = 'absolute';
      right.style.left = (junctionX) + 'px';
      right.style.width = (x + width - junctionX) + 'px';
      if (height > 0) {
        right.style.top = (y + halfHeight) + 'px';
        right.style.height = (height - halfHeight) + 'px';
        right.style.borderBottom = '1px solid black';
        right.style.borderBottomLeftRadius = '6px';
      } else {
        right.style.top = (y + height) + 'px';
        right.style.height = halfHeight + 'px';
        right.style.borderTop = '1px solid black';
        right.style.borderTopLeftRadius = '6px';
      }
      right.style.borderLeft = '1px solid black';
      div.appendChild(right);
    }
  }
  \<close>
\<close>

definition rightArrow :: "int \<Rightarrow> int \<Rightarrow> int \<Rightarrow> int \<Rightarrow> int option \<Rightarrow> span list" where
  "rightArrow x width y height junctionX =
     (if height = 0 then
        [Span [''position'' \<mapsto> Css ''absolute'', ''left'' \<mapsto> Px x, ''width'' \<mapsto> Px width,
               ''top'' \<mapsto> Px y, ''height'' \<mapsto> Px 1, ''background'' \<mapsto> Css ''#000''] None]
      else
        let junctionX = (case junctionX of None \<Rightarrow> x + shr1 width | Some j \<Rightarrow> j);
            halfHeight = shr1 (\<bar>height\<bar> + 1);
            left = [''position'' \<mapsto> Css ''absolute'', ''left'' \<mapsto> Px x,
                    ''width'' \<mapsto> Px (junctionX - x)];
            left =
              (if height > 0 then
                 left(''top'' \<mapsto> Px y, ''height'' \<mapsto> Px halfHeight,
                      ''borderTop'' \<mapsto> Css ''1px solid black'',
                      ''borderTopRightRadius'' \<mapsto> Px 6)
               else
                 left(''top'' \<mapsto> Px (y - halfHeight), ''height'' \<mapsto> Px halfHeight,
                      ''borderBottom'' \<mapsto> Css ''1px solid black'',
                      ''borderBottomRightRadius'' \<mapsto> Px 6));
            left = left(''borderRight'' \<mapsto> Css ''1px solid black'');
            right = [''position'' \<mapsto> Css ''absolute'', ''left'' \<mapsto> Px junctionX,
                     ''width'' \<mapsto> Px (x + width - junctionX)];
            right =
              (if height > 0 then
                 right(''top'' \<mapsto> Px (y + halfHeight), ''height'' \<mapsto> Px (height - halfHeight),
                       ''borderBottom'' \<mapsto> Css ''1px solid black'',
                       ''borderBottomLeftRadius'' \<mapsto> Px 6)
               else
                 right(''top'' \<mapsto> Px (y + height), ''height'' \<mapsto> Px halfHeight,
                       ''borderTop'' \<mapsto> Css ''1px solid black'',
                       ''borderTopLeftRadius'' \<mapsto> Px 6));
            right = right(''borderLeft'' \<mapsto> Css ''1px solid black'')
        in [Span left None, Span right None])"

text \<open>
  The three loops of \<^verbatim>\<open>case '|'\<close>:
  \<^verbatim>\<open>
      for (var i = 0; i < n; ++i) {
        var child = children[i];
        width = Math.max(width, 32 + child.offsetWidth);
      }
      var childYCenters = [];
      var leftXs = [];
      var rightXs = [];
      for (var i = 0; i < n; ++i) {
        if (i) { height += 16; }
        var child = children[i];
        child.style.top = height + 'px';
        var childHeight = child.offsetHeight, childWidth = child.offsetWidth;
        var leftX = ((width - childWidth) >> 1), rightX = leftX + childWidth;
        child.style.left = leftX + 'px';
        leftXs[i] = leftX;
        rightXs[i] = rightX;
        childYCenters[i] = height + (childHeight >> 1);
        height += childHeight;
      }
      var centerY = (height >> 1);
      for (var i = 0; i < n; ++i) {
        rightArrow(0, leftXs[i], centerY, childYCenters[i] - centerY, 8);
        rightArrow(rightXs[i], width - rightXs[i], childYCenters[i],
                   centerY - childYCenters[i], width - 8);
      }
  \<close>
  The arrays \<^verbatim>\<open>leftXs\<close>, \<^verbatim>\<open>rightXs\<close> and \<^verbatim>\<open>childYCenters\<close> are filled at the same
  indices; they are modelled as one list of triples.
\<close>

fun choiceWidth :: "element list \<Rightarrow> int \<Rightarrow> int" where
  "choiceWidth [] width = width"
| "choiceWidth (child # rest) width = choiceWidth rest (max width (32 + offsetWidth child))"

fun choiceRows ::
  "int \<Rightarrow> element list \<Rightarrow> nat \<Rightarrow> int \<Rightarrow> element list \<times> (int \<times> int \<times> int) list \<times> int" where
  "choiceRows width [] i height = ([], [], height)"
| "choiceRows width (child # rest) i height =
     (let height = (if i \<noteq> 0 then height + 16 else height);
          child = setStyle ''top'' (Px height) child;
          childHeight = offsetHeight child;
          childWidth = offsetWidth child;
          leftX = shr1 (width - childWidth);
          rightX = leftX + childWidth;
          child = setStyle ''left'' (Px leftX) child;
          childYCenter = height + shr1 childHeight;
          height = height + childHeight;
          (divs, xs, height) = choiceRows width rest (i + 1) height
      in (child # divs, (leftX, rightX, childYCenter) # xs, height))"

fun choiceArrows :: "int \<Rightarrow> int \<Rightarrow> (int \<times> int \<times> int) list \<Rightarrow> span list" where
  "choiceArrows width centerY [] = []"
| "choiceArrows width centerY ((leftX, rightX, childYCenter) # xs) =
     rightArrow 0 leftX centerY (childYCenter - centerY) (Some 8)
     @ rightArrow rightX (width - rightX) childYCenter (centerY - childYCenter) (Some (width - 8))
     @ choiceArrows width centerY xs"

text \<open>
  Each case of the \<^verbatim>\<open>switch\<close> is a function from the child elements to the child
  elements with their positions set, the \<^verbatim>\<open>SPAN\<close>s appended after them, and the
  \<^verbatim>\<open>width\<close> and \<^verbatim>\<open>height\<close> of the node.
\<close>

type_synonym layout = "element list \<times> span list \<times> int \<times> int"

definition layoutChoice :: "element list \<Rightarrow> layout" where
  "layoutChoice divs =
     (let width = choiceWidth divs 0;
          (divs, xs, height) = choiceRows width divs 0 0;
          centerY = shr1 height
      in (divs, choiceArrows width centerY xs, width, height))"

text \<open>
  \<^verbatim>\<open>
    case '+':
      var child = children[0];
      child.style.top = '8px';
      child.style.left = '16px';
      width = child.offsetWidth + 32;
      height = child.offsetHeight + 16;
      var centerY = (height >> 1);
      var loopback = document.createElement('SPAN');
      loopback.style.display = 'inline-block';
      loopback.style.borderLeft = loopback.style.borderRight
          = loopback.style.borderTop = '1px solid black';
      loopback.style.borderTopLeftRadius = loopback.style.borderTopRightRadius = '6px';
      loopback.style.position = 'absolute';
      loopback.style.left = '8px';
      loopback.style.top = '0px';
      loopback.style.width = (width - 16) + 'px';
      loopback.style.height = (centerY - 8) + 'px';
      div.appendChild(loopback);
      loopback = document.createElement('SPAN');
      loopback.style.display = 'inline-block';
      loopback.style.borderLeft = loopback.style.borderBottom = '1px solid black';
      loopback.style.borderBottomLeftRadius = '6px';
      loopback.style.position = 'absolute';
      loopback.style.left = '8px';
      loopback.style.top = (centerY - 12) + 'px';
      loopback.style.width = '8px';
      loopback.style.height = '12px';
      div.appendChild(loopback);
      loopback = document.createElement('SPAN');
      loopback.style.display = 'inline-block';
      loopback.style.borderRight = loopback.style.borderBottom = '1px solid black';
      loopback.style.borderBottomRightRadius = '6px';
      loopback.style.position = 'absolute';
      loopback.style.left = (width - 16) + 'px';
      loopback.style.top = (centerY - 12) + 'px';
      loopback.style.width = '8px';
      loopback.style.height = '12px';
      div.appendChild(loopback);
      renderArrowhead('\u25C0', div);
      rightArrow(0, 16, centerY, 0);
      rightArrow(width - 16, 16, centerY, 0);
      break;
  \<close>
  With no children, \<^verbatim>\<open>children[0]\<close> is \<^verbatim>\<open>undefined\<close> and \<^verbatim>\<open>child.style\<close> throws.
  Children after the first stay in the \<^verbatim>\<open>DIV\<close> as they were appended.
\<close>

definition leftArrowhead :: string where
  "leftArrowhead = [CHR 0xE2, CHR 0x97, CHR 0x80]"

fun layoutRepeat :: "element list \<Rightarrow> error + layout" where
  "layoutRepeat [] = Inl TypeError"
| "layoutRepeat (child # rest) =
     (let child = setStyle ''top'' (Px 8) child;
          child = setStyle ''left'' (Px 16) child;
          width = offsetWidth child + 32;
          height = offsetHeight child + 16;
          centerY = shr1 height;
          loopback1 = Span
            [''display'' \<mapsto> Css ''inline-block'',
             ''borderTop'' \<mapsto> Css ''1px solid black'',
             ''borderRight'' \<mapsto> Css ''1px solid black'',
             ''borderLeft'' \<mapsto> Css ''1px solid black'',
             ''borderTopRightRadius'' \<mapsto> Px 6, ''borderTopLeftRadius'' \<mapsto> Px 6,
             ''position'' \<mapsto> Css ''absolute'', ''left'' \<mapsto> Px 8, ''top'' \<mapsto> Px 0,
             ''width'' \<mapsto> Px (width - 16), ''height'' \<mapsto> Px (centerY - 8)] None;
          loopback2 = Span
            [''display'' \<mapsto> Css ''inline-block'',
             ''borderBottom'' \<mapsto> Css ''1px solid black'',
             ''borderLeft'' \<mapsto> Css ''1px solid black'',
             ''borderBottomLeftRadius'' \<mapsto> Px 6,
             ''position'' \<mapsto> Css ''absolute'', ''left'' \<mapsto> Px 8,
             ''top'' \<mapsto> Px (centerY - 12), ''width'' \<mapsto> Px 8, ''height'' \<mapsto> Px 12] None;
          loopback3 = Span
            [''display'' \<mapsto> Css ''inline-block'',
             ''borderBottom'' \<mapsto> Css ''1px solid black'',
             ''borderRight'' \<mapsto> Css ''1px solid black'',
             ''borderBottomRightRadius'' \<mapsto> Px 6,
             ''position'' \<mapsto> Css ''absolute'', ''left'' \<mapsto> Px (width - 16),
             ''top'' \<mapsto> Px (centerY - 12), ''width'' \<mapsto> Px 8, ''height'' \<mapsto> Px 12] None
      in Inr (child # rest,
              [loopback1, loopback2, loopback3] @ renderArrowhead leftArrowhead
              @ rightArrow 0 16 centerY 0 None @ rightArrow (width - 16) 16 centerY 0 None,
              width, height))"

text \<open>
  \<^verbatim>\<open>
    case '.':
      for (var i = 0; i < n; ++i) {
        var child = children[i];
        height = Math.max(height, child.offsetHeight);
      }
      rightArrow(0, 16, (height >> 1), 0);
      width = 16;
      for (var i = 0; i < n; ++i) {
        var child = children[i];
        child.style.left = width + 'px';
        width += child.offsetWidth;
        rightArrow(width, 16, (height >> 1), 0);
        width += 16;
        child.style.top = ((height - child.offsetHeight) >> 1) + 'px';
      }
      break;
  \<close>
\<close>

fun sequenceHeight :: "element list \<Rightarrow> int \<Rightarrow> int" where
  "sequenceHeight [] height = height"
| "sequenceHeight (child # rest) height = sequenceHeight rest (max height (offsetHeight child))"

fun sequenceRow :: "int \<Rightarrow> element list \<Rightarrow> int \<Rightarrow> element list \<times> span list \<times> int" where
  "sequenceRow height [] width = ([], [], width)"
| "sequenceRow height (child # rest) width =
     (let child = setStyle ''left'' (Px width) child;
          width = width + offsetWidth child;
          arrow = rightArrow width 16 (shr1 height) 0 None;
          width = width + 16;
          child = setStyle ''top'' (Px (shr1 (height - offsetHeight child))) child;
          (divs, arrows, width) = sequenceRow height rest width
      in (child # divs, arrow @ arrows, width))"

definition layoutSequence :: "element list \<Rightarrow> layout" where
  "layoutSequence divs =
     (let height = sequenceHeight divs 0;
          arrow = rightArrow 0 16 (shr1 height) 0 None;
          (divs, arrows, width) = sequenceRow height divs 16
      in (divs, arrow @ arrows, width, height))"

text \<open>
  \<^verbatim>\<open>
  function appendToDOM(node, parent, opt_stats) {
    var document = parent.ownerDocument;
    node = toNode(node);
    var div = document.createElement('DIV');
    div.style.display = 'inline-block';
    div.style.position = 'absolute';
    parent.appendChild(div);
    if (node.op === 'html') {
      div.innerHTML = node.content;
      if (node.content === '\u25b6') {
        div.style.fontSize = div.style.height = '8px';
      }
      if (opt_stats) {
        opt_stats.width = div.offesetWidth;
        opt_stats.height = div.offesetHeight;
      }
      return div;
    }
    var children = [];
    var n = node.children.length;
    for (var i = 0; i < n; ++i) {
      children[i] = appendToDOM(node.children[i], div);
    }
    ...
    var width = 0, height = 0;
    switch (node.op) {
      case '|': ...
      case '+': ...
      case '.': ...
      default:
        throw new Error(node.op);
    }
    div.style.width = width + 'px';
    div.style.height = height + 'px';
    if (opt_stats) {
      opt_stats.width = width;
      opt_stats.height = height;
    }
    return div;
  }
  \<close>
  The model returns the \<^verbatim>\<open>DIV\<close> that the source returns and appends to \<^verbatim>\<open>parent\<close>,
  together with the statistics object after the call (\<open>None\<close> when the caller passed
  none). A field of the statistics object that holds \<^verbatim>\<open>undefined\<close> is \<open>None\<close>.

  The sizes come from the browser. For the \<^verbatim>\<open>DIV\<close> of an \<^verbatim>\<open>'html'\<close> node they are given
  by the parameter \<open>measured\<close>, a function of the content (the style of such a \<^verbatim>\<open>DIV\<close> is
  determined by its content). The \<^verbatim>\<open>DIV\<close> of any other node has an explicit width and
  height and no padding or border of its own, and is reported at that size.
\<close>

record stats =
  stats_width :: "int option"
  stats_height :: "int option"

fun mapM :: "('a \<Rightarrow> error + 'b) \<Rightarrow> 'a list \<Rightarrow> error + 'b list" where
  "mapM f [] = Inr []"
| "mapM f (x # xs) =
     (case f x of Inl e \<Rightarrow> Inl e
      | Inr y \<Rightarrow> (case mapM f xs of Inl e \<Rightarrow> Inl e | Inr ys \<Rightarrow> Inr (y # ys)))"

lemma mapM_cong [fundef_cong]:
  "xs = ys \<Longrightarrow> (\<And>x. x \<in> set ys \<Longrightarrow> f x = g x) \<Longrightarrow> mapM f xs = mapM g ys"
  by (induction ys arbitrary: xs) (auto split: sum.splits)

lemma size_child: "x \<in> set cs \<Longrightarrow> size x < size (Obj opr c (Some cs))"
proof -
  assume "x \<in> set cs"
  then have "size x \<le> size_list size cs"
    by (rule size_list_estimation') simp
  then show ?thesis by simp
qed

lemma toNode_children_size:
  "toNode v = Inr node \<Longrightarrow> children node = Some cs \<Longrightarrow> x \<in> set cs \<Longrightarrow> size x < size v"
  by (cases v) (auto simp del: jsval.size dest: size_child)

definition leafDiv :: "(string \<Rightarrow> nat \<times> nat) \<Rightarrow> string option \<Rightarrow> element" where
  "leafDiv measured c =
     (let st = [''display'' \<mapsto> Css ''inline-block'', ''position'' \<mapsto> Css ''absolute''];
          html = toString c;
          st = (if c = Some bypass then st(''height'' \<mapsto> Px 8, ''fontSize'' \<mapsto> Px 8) else st)
      in Div st (Some html) [] [] (int (fst (measured html))) (int (snd (measured html))))"

definition layoutNode :: "string \<Rightarrow> element list \<Rightarrow> error + layout" where
  "layoutNode opr divs =
     (if opr = ''|'' then Inr (layoutChoice divs)
      else if opr = ''+'' then layoutRepeat divs
      else if opr = ''.'' then Inr (layoutSequence divs)
      else Inl (UnsupportedNodeError opr))"

function appendToDOM ::
  "(string \<Rightarrow> nat \<times> nat) \<Rightarrow> jsval \<Rightarrow> stats option \<Rightarrow> error + element \<times> stats option" where
  "appendToDOM measured node0 opt_stats =
     (case toNode node0 of Inl e \<Rightarrow> Inl e
      | Inr node \<Rightarrow>
          if op node = ''html'' then
            (let el = leafDiv measured (content node)
             in Inr (el,
                  map_option (\<lambda>s. s\<lparr>stats_width := getProperty el ''offesetWidth'',
                                     stats_height := getProperty el ''offesetHeight''\<rparr>)
                    opt_stats))
          else
            (case children node of None \<Rightarrow> Inl TypeError
             | Some cs \<Rightarrow>
                 (case mapM (\<lambda>c. appendToDOM measured c None) cs of Inl e \<Rightarrow> Inl e
                  | Inr rs \<Rightarrow>
                      (case layoutNode (op node) (map fst rs) of Inl e \<Rightarrow> Inl e
                       | Inr (divs, spans, width, height) \<Rightarrow>
                           Inr (Div [''display'' \<mapsto> Css ''inline-block'',
                                     ''position'' \<mapsto> Css ''absolute'',
                                     ''width'' \<mapsto> Px width, ''height'' \<mapsto> Px height]
                                  None divs spans width height,
                                map_option (\<lambda>s. s\<lparr>stats_width := Some width,
                                                   stats_height := Some height\<rparr>)
                                  opt_stats)))))"
  by pat_completeness auto
termination
  by (relation "measure (\<lambda>(m, v, s). size v)") (auto dest: toNode_children_size)

section \<open>Predicates of the specification\<close>

text \<open>
  The data-model invariant of the specification: a \<^verbatim>\<open>'.'\<close> node (Sequence) has at least
  two children and no \<^verbatim>\<open>'.'\<close> node among them, a \<^verbatim>\<open>'|'\<close> node (Choice) has at least
  two children and no \<^verbatim>\<open>'|'\<close> node among them, and the same holds of every node below.
  Texts, and nodes with other tags, are not constrained themselves.
\<close>

fun hasOp :: "string \<Rightarrow> jsval \<Rightarrow> bool" where
  "hasOp t (Obj opr c k) = (opr = t)"
| "hasOp t v = False"

fun invariant :: "jsval \<Rightarrow> bool" where
  "invariant (Obj opr c None) = (opr \<noteq> ''.'' \<and> opr \<noteq> ''|'')"
| "invariant (Obj opr c (Some cs)) =
     ((opr = ''.'' \<longrightarrow> 2 \<le> length cs \<and> (\<forall>x \<in> set cs. \<not> hasOp ''.'' x)) \<and>
      (opr = ''|'' \<longrightarrow> 2 \<le> length cs \<and> (\<forall>x \<in> set cs. \<not> hasOp ''|'' x)) \<and>
      (\<forall>x \<in> set cs. invariant x))"
| "invariant v = True"

text \<open>
  A node in which no text stands where \<open>or\<close> looks for options: the value is not a text
  itself, and when it is a \<^verbatim>\<open>'|'\<close> node, the same holds of each of its children. Every
  result of \<open>or\<close> is such a node.
\<close>

fun noTextOption :: "jsval \<Rightarrow> bool" where
  "noTextOption (Str s) = False"
| "noTextOption (Obj opr c (Some cs)) = (opr = ''|'' \<longrightarrow> (\<forall>x \<in> set cs. noTextOption x))"
| "noTextOption v = True"

text \<open>
  What \<open>or\<close> holds in \<^verbatim>\<open>options\<close>: objects other than \<^verbatim>\<open>'|'\<close> nodes. The state of \<open>or\<close>
  is closed when \<^verbatim>\<open>alreadySeen\<close> holds exactly the contents of the \<^verbatim>\<open>'html'\<close> nodes in
  \<^verbatim>\<open>options\<close>, each of them once; adding the options again to the empty state then gives
  the same state.
\<close>

fun isOption :: "jsval \<Rightarrow> bool" where
  "isOption (Obj opr c k) = (opr \<noteq> ''|'')"
| "isOption v = False"



text \<open>The invariant of the state of \<open>or\<close> used to show that the builder keeps the data-model invariant.\<close>

definition or_inv :: "or_state \<Rightarrow> bool" where
  "or_inv st = ((\<forall>x \<in> set (fst st). invariant x \<and> \<not> hasOp ''|'' x) \<and> (snd st \<noteq> {} \<longrightarrow> fst st \<noteq> []))"

text \<open>
  The nodes produced by the public functions: the results of \<open>each\<close>, \<open>or\<close>, \<open>maybe\<close>,
  \<open>many\<close> and \<open>any\<close> on texts and on nodes produced in the same way.
\<close>

fun isText :: "jsval \<Rightarrow> bool" where
  "isText (Str s) = True"
| "isText v = False"

inductive built :: "jsval \<Rightarrow> bool" where
  built_each: "\<forall>a \<in> set args. isText a \<or> built a \<Longrightarrow> each args = Inr r \<Longrightarrow> built r"
| built_or: "\<forall>a \<in> set args. isText a \<or> built a \<Longrightarrow> or_node args = Inr r \<Longrightarrow> built r"
| built_maybe: "isText x \<or> built x \<Longrightarrow> maybe x = Inr r \<Longrightarrow> built r"
| built_many: "isText x \<or> built x \<Longrightarrow> built (many x)"
| built_any: "isText x \<or> built x \<Longrightarrow> any x = Inr r \<Longrightarrow> built r"

text \<open>
  The four tags that \<open>appendToDOM\<close> knows. A tree can be rendered apart from its tags
  when every value in it is a text or an object, every object that is not an
  \<^verbatim>\<open>'html'\<close> node has a \<^verbatim>\<open>children\<close> array, and a \<^verbatim>\<open>'+'\<close> node has a first child. It
  contains an unsupported node when an object with another tag is reached through the
  \<^verbatim>\<open>children\<close> of objects that are not \<^verbatim>\<open>'html'\<close> nodes.
\<close>

definition known :: "string \<Rightarrow> bool" where
  "known opr = (opr \<in> {''html'', ''|'', ''+'', ''.''})"

fun renderable :: "jsval \<Rightarrow> bool" where
  "renderable (Str s) = True"
| "renderable (Obj opr c None) = (opr = ''html'')"
| "renderable (Obj opr c (Some cs)) =
     (opr = ''html'' \<or> ((opr = ''+'' \<longrightarrow> cs \<noteq> []) \<and> (\<forall>x \<in> set cs. renderable x)))"
| "renderable v = False"

fun unsupported :: "jsval \<Rightarrow> bool" where
  "unsupported (Obj opr c None) = (\<not> known opr)"
| "unsupported (Obj opr c (Some cs)) =
     (opr \<noteq> ''html'' \<and> (\<not> known opr \<or> (\<exists>x \<in> set cs. unsupported x)))"
| "unsupported v = False"

text \<open>
  The shape of the trees that the builder produces from texts: \<^verbatim>\<open>'html'\<close> nodes,
  \<^verbatim>\<open>'|'\<close> nodes whose children are objects other than \<^verbatim>\<open>'|'\<close> nodes, \<^verbatim>\<open>'.'\<close> nodes,
  and \<^verbatim>\<open>'+'\<close> nodes with one child, which may be a text.
\<close>

fun canonical :: "jsval \<Rightarrow> bool" where
  "canonical (Str s) = True"
| "canonical (Obj opr c None) = (opr = ''html'')"
| "canonical (Obj opr c (Some cs)) =
     (opr = ''html'' \<or>
      ((opr = ''|'' \<and> (\<forall>x \<in> set cs. isOption x) \<or> opr = ''.'' \<or> opr = ''+'' \<and> length cs = 1) \<and>
       (\<forall>x \<in> set cs. canonical x)))"
| "canonical v = False"

definition canonicalNode :: "jsval \<Rightarrow> bool" where
  "canonicalNode v = (canonical v \<and> \<not> isText v)"

text \<open>
  The vertical position of row \<open>i\<close> of a choice whose rows have the heights \<open>hs\<close>: the
  running position starts at 0 and advances by the height of a row and 16 after it.
\<close>

definition rowY :: "int list \<Rightarrow> nat \<Rightarrow> int" where
  "rowY hs i = sum_list (map (\<lambda>h. h + 16) (take i hs))"

text \<open>
  The positions that the specification gives for a choice whose options have the widths
  \<open>ws\<close> and the heights \<open>hs\<close>: option \<open>i\<close> is centred horizontally in the width of the
  choice, its vertical centre is the middle of its row, and the junction of the choice is
  at the middle of its height.
\<close>

definition optionX :: "int list \<Rightarrow> nat \<Rightarrow> int" where
  "optionX ws i = (Max (set ws) + 32 - ws ! i) div 2"

definition optionCenter :: "int list \<Rightarrow> nat \<Rightarrow> int" where
  "optionCenter hs i = rowY hs i + hs ! i div 2"

definition choiceCenterY :: "int list \<Rightarrow> int" where
  "choiceCenterY hs = (sum_list hs + 16 * (int (length hs) - 1)) div 2"

text \<open>
  The connectors of option \<open>i\<close>, as calls of \<open>rightArrow\<close>: from the left edge of the
  choice to the left edge of the option with the bend 8 from the left edge, and from the
  right edge of the option to the right edge of the choice with the bend 8 from the right
  edge.
\<close>

text \<open>
  The left position of child \<open>i\<close> of a Sequence whose children have the widths \<open>ws\<close>: a
  gap of 16, and the width and a gap of 16 for each child before it.
\<close>

definition itemX :: "int list \<Rightarrow> nat \<Rightarrow> int" where
  "itemX ws i = 16 + sum_list (map (\<lambda>w. w + 16) (take i ws))"

definition entryConnector :: "int list \<Rightarrow> int list \<Rightarrow> nat \<Rightarrow> span list" where
  "entryConnector ws hs i =
     rightArrow 0 (optionX ws i) (choiceCenterY hs) (optionCenter hs i - choiceCenterY hs) (Some 8)"

definition exitConnector :: "int list \<Rightarrow> int list \<Rightarrow> nat \<Rightarrow> span list" where
  "exitConnector ws hs i =
     rightArrow (optionX ws i + ws ! i) (Max (set ws) + 32 - (optionX ws i + ws ! i))
       (optionCenter hs i) (choiceCenterY hs - optionCenter hs i) (Some (Max (set ws) + 32 - 8))"

text \<open>
  \<open>connects sps (x0, y0) j (x1, y1)\<close>: the \<^verbatim>\<open>SPAN\<close>s \<open>sps\<close> draw a line from \<open>(x0, y0)\<close>
  to \<open>(x1, y1)\<close> that changes its level at \<open>x = j\<close>. On one level it is a single
  \<^verbatim>\<open>SPAN\<close> of height 1 with a background. Otherwise the first \<^verbatim>\<open>SPAN\<close> reaches from
  \<open>x0\<close> to \<open>j\<close> with a border at the level \<open>y0\<close> and a border on its right, and the
  second from \<open>j\<close> to \<open>x1\<close> with a border on its left and a border at the level \<open>y1\<close>;
  going down the second begins where the first ends, going up they meet or overlap.
\<close>

fun connects :: "span list \<Rightarrow> int \<times> int \<Rightarrow> int \<Rightarrow> int \<times> int \<Rightarrow> bool" where
  "connects [l] (x0, y0) j (x1, y1) =
     (y0 = y1 \<and> spanStyle l ''left'' = Some (Px x0) \<and> spanStyle l ''width'' = Some (Px (x1 - x0)) \<and>
      spanStyle l ''top'' = Some (Px y0) \<and> spanStyle l ''height'' = Some (Px 1) \<and>
      spanStyle l ''background'' = Some (Css ''#000''))"
| "connects [l, r] (x0, y0) j (x1, y1) =
     (y0 \<noteq> y1 \<and>
      spanStyle l ''left'' = Some (Px x0) \<and> spanStyle l ''width'' = Some (Px (j - x0)) \<and>
      spanStyle r ''left'' = Some (Px j) \<and> spanStyle r ''width'' = Some (Px (x1 - j)) \<and>
      spanStyle l ''borderRight'' = Some (Css ''1px solid black'') \<and>
      spanStyle r ''borderLeft'' = Some (Css ''1px solid black'') \<and>
      (case (spanStyle l ''top'', spanStyle l ''height'', spanStyle r ''top'', spanStyle r ''height'') of
         (Some (Px lt), Some (Px lh), Some (Px rt), Some (Px rh)) \<Rightarrow>
           if y0 < y1 then
             lt = y0 \<and> spanStyle l ''borderTop'' = Some (Css ''1px solid black'') \<and>
             rt = lt + lh \<and> rt + rh = y1 \<and>
             spanStyle r ''borderBottom'' = Some (Css ''1px solid black'')
           else
             lt + lh = y0 \<and> spanStyle l ''borderBottom'' = Some (Css ''1px solid black'') \<and>
             rt = y1 \<and> lt \<le> rt + rh \<and>
             spanStyle r ''borderTop'' = Some (Css ''1px solid black'')
       | _ \<Rightarrow> False))"
| "connects sps p j q = False"

section \<open>Equations for \<open>appendToDOM\<close>\<close>

declare appendToDOM.simps [simp del]

lemma appendToDOM_Str:
  "appendToDOM measured (Str s) st =
     Inr (leafDiv measured (Some s),
          map_option (\<lambda>s. s\<lparr>stats_width := None, stats_height := None\<rparr>) st)"
  by (simp add: appendToDOM.simps [of _ "Str s"] getProperty_def)

lemma appendToDOM_html:
  "appendToDOM measured (Obj ''html'' c k) st =
     Inr (leafDiv measured c,
          map_option (\<lambda>s. s\<lparr>stats_width := None, stats_height := None\<rparr>) st)"
  by (simp add: appendToDOM.simps [of _ "Obj ''html'' c k"] getProperty_def)

lemma appendToDOM_composite:
  "opr \<noteq> ''html'' \<Longrightarrow> appendToDOM measured (Obj opr c (Some cs)) st =
     (case mapM (\<lambda>c. appendToDOM measured c None) cs of Inl e \<Rightarrow> Inl e
      | Inr rs \<Rightarrow>
          (case layoutNode opr (map fst rs) of Inl e \<Rightarrow> Inl e
           | Inr (divs, spans, width, height) \<Rightarrow>
               Inr (Div [''display'' \<mapsto> Css ''inline-block'',
                         ''position'' \<mapsto> Css ''absolute'',
                         ''width'' \<mapsto> Px width, ''height'' \<mapsto> Px height]
                      None divs spans width height,
                    map_option (\<lambda>s. s\<lparr>stats_width := Some width,
                                       stats_height := Some height\<rparr>) st)))"
  by (simp add: appendToDOM.simps [of _ "Obj opr c (Some cs)"] cong: sum.case_cong)

lemma appendToDOM_no_children:
  "opr \<noteq> ''html'' \<Longrightarrow> appendToDOM measured (Obj opr c None) st = Inl TypeError"
  by (simp add: appendToDOM.simps [of _ "Obj opr c None"])

lemma appendToDOM_invalid:
  "appendToDOM measured Undefined st = Inl (InvalidNodeError Undefined)"
  "appendToDOM measured Other st = Inl (InvalidNodeError Other)"
  "appendToDOM measured Null st = Inl TypeError"
  by (simp_all add: appendToDOM.simps [of _ Undefined] appendToDOM.simps [of _ Other]
      appendToDOM.simps [of _ Null])

section \<open>Properties of the builder\<close>

text \<open>
  C1. \<^verbatim>\<open>or('x', 'x')\<close> is claimed to give the single node \<^verbatim>\<open>{op: 'html', content: 'x'}\<close>,
  and \<^verbatim>\<open>or('x', 'y')\<close> a \<^verbatim>\<open>'|'\<close> node with the two options in the order of the arguments.
  A string argument has no \<^verbatim>\<open>op\<close>, so it takes the default branch of \<open>addOption\<close>,
  which pushes without consulting \<^verbatim>\<open>alreadySeen\<close>: for all texts \<open>s\<close> and \<open>t\<close>, equal or
  not, the call \<^verbatim>\<open>or(s, t)\<close> returns a \<^verbatim>\<open>'|'\<close> node with the two \<^verbatim>\<open>'html'\<close> children
  in the order of the arguments, and so \<^verbatim>\<open>or('x', 'x')\<close> returns a \<^verbatim>\<open>'|'\<close> node with two
  equal children.
\<close>

theorem or_equal_texts_kept_twice:
  "or_node [Str s, Str t] =
     Inr (Obj ''|'' None (Some [Obj ''html'' (Some s) None, Obj ''html'' (Some t) None])) \<and>
   or_node [Str ''x'', Str ''x''] =
     Inr (Obj ''|'' None (Some [Obj ''html'' (Some ''x'') None, Obj ''html'' (Some ''x'') None]))"
  by (simp add: or_node_def)

text \<open>
  The branch for \<^verbatim>\<open>'html'\<close> nodes does consult \<^verbatim>\<open>alreadySeen\<close>: two \<^verbatim>\<open>'html'\<close> nodes
  with the same content give the first of them.
\<close>

lemma or_equal_html_nodes:
  "s \<noteq> ''__proto__'' \<Longrightarrow>
     or_node [Obj ''html'' (Some s) k, Obj ''html'' (Some s) k'] = Inr (Obj ''html'' (Some s) k)"
  by (simp add: or_node_def)

text \<open>
  C2. \<open>many x\<close> is claimed to store \<open>toNode x\<close> as its only child. For the text
  \<^verbatim>\<open>'x'\<close> the stored child is the string itself, not the \<^verbatim>\<open>'html'\<close> node.
\<close>

theorem many_text_child_counterexample:
  "toNode (Str ''x'') = Inr (Obj ''html'' (Some ''x'') None) \<and>
   children (many (Str ''x'')) \<noteq> Some [Obj ''html'' (Some ''x'') None]"
  by (simp add: many_def)

text \<open>
  C2, amended. \<open>many x\<close> is a \<^verbatim>\<open>'+'\<close> node with exactly one child, and that child is
  \<open>x\<close> as it was passed. For a node argument this is \<open>toNode x\<close>; a text argument stays a
  string in the tree and is converted by \<open>toNode\<close> when the tree is rendered, where it
  gives the same result as the \<^verbatim>\<open>'html'\<close> node would.
\<close>

theorem many_stores_argument:
  "op (many x) = ''+'' \<and> children (many x) = Some [x] \<and>
   toNode (Obj opr c k) = Inr (Obj opr c k) \<and>
   appendToDOM measured (many (Str s)) st =
     appendToDOM measured (many (Obj ''html'' (Some s) None)) st"
  by (simp add: many_def appendToDOM_composite appendToDOM_Str appendToDOM_html)

text \<open>
  C10. \<open>maybe\<close> applied to the bypass glyph, as a text or as an \<^verbatim>\<open>'html'\<close> node with
  that content, returns the single bypass node: the second argument of \<open>or\<close> is dropped
  as already seen, one option is left, and \<open>or\<close> returns it instead of a \<^verbatim>\<open>'|'\<close> node.
\<close>

theorem maybe_bypass_is_bypass:
  "maybe (Str bypass) = Inr (Obj ''html'' (Some bypass) None) \<and>
   maybe (Obj ''html'' (Some bypass) k) = Inr (Obj ''html'' (Some bypass) None)"
  by (simp add: maybe_def or_node_def bypass_def)

section \<open>Properties of the renderer\<close>

text \<open>
  C9. When a statistics object is supplied and the node is an \<^verbatim>\<open>'html'\<close> node (or a
  text, which \<open>toNode\<close> turns into one), both fields of the statistics object are
  \<^verbatim>\<open>undefined\<close> after the call, whatever the browser measured: the source reads
  \<^verbatim>\<open>offesetWidth\<close> and \<^verbatim>\<open>offesetHeight\<close>, which no element has, while the measured size is
  in \<^verbatim>\<open>offsetWidth\<close> and \<^verbatim>\<open>offsetHeight\<close>. For any other node that is rendered, the
  fields hold the computed width and height, which are the size of the returned element.
\<close>

theorem leaf_stats_undefined:
  "appendToDOM measured (Obj ''html'' c k) (Some s) =
     Inr (leafDiv measured c, Some \<lparr>stats_width = None, stats_height = None\<rparr>) \<and>
   appendToDOM measured (Str t) (Some s) =
     Inr (leafDiv measured (Some t), Some \<lparr>stats_width = None, stats_height = None\<rparr>) \<and>
   getProperty (leafDiv measured c) ''offsetWidth'' = Some (int (fst (measured (toString c)))) \<and>
   getProperty (leafDiv measured c) ''offsetHeight'' = Some (int (snd (measured (toString c)))) \<and>
   (opr \<noteq> ''html'' \<and> appendToDOM measured (Obj opr c k) (Some s) = Inr (d, s') \<longrightarrow>
      s' = Some \<lparr>stats_width = Some (offsetWidth d), stats_height = Some (offsetHeight d)\<rparr>)"
proof -
  have composite: "s' = Some \<lparr>stats_width = Some (offsetWidth d), stats_height = Some (offsetHeight d)\<rparr>"
    if "opr \<noteq> ''html''" and "appendToDOM measured (Obj opr c k) (Some s) = Inr (d, s')"
  proof (cases k)
    case None
    with that show ?thesis by (simp add: appendToDOM_no_children)
  next
    case (Some cs)
    with that show ?thesis
      by (auto simp: appendToDOM_composite split: sum.splits prod.splits)
  qed
  show ?thesis
    using composite
    by (simp add: appendToDOM_html appendToDOM_Str getProperty_def leafDiv_def Let_def)
qed

theorem leaf_stats_undefined_witness:
  "(\<exists>d. appendToDOM (\<lambda>_. (10, 5)) (Obj ''+'' None (Some [Str ''a'']))
          (Some \<lparr>stats_width = None, stats_height = None\<rparr>) =
        Inr (d, Some \<lparr>stats_width = Some 42, stats_height = Some 21\<rparr>)) \<and>
   (\<exists>d. appendToDOM (\<lambda>_. (10, 5)) (Str ''a'')
          (Some \<lparr>stats_width = Some 1, stats_height = Some 1\<rparr>) =
        Inr (d, Some \<lparr>stats_width = None, stats_height = None\<rparr>) \<and>
        offsetWidth d = 10 \<and> offsetHeight d = 5)"
proof -
  let ?o = "\<lambda>_::string. (10::nat, 5::nat)"
  let ?s = "\<lparr>stats_width = None, stats_height = None\<rparr>"
  obtain d s' where run: "appendToDOM ?o (Obj ''+'' None (Some [Str ''a''])) (Some ?s) = Inr (d, s')"
    and size: "offsetWidth d = 42" "offsetHeight d = 21"
    by (simp add: appendToDOM_composite appendToDOM_Str layoutNode_def leafDiv_def Let_def)
  have "''+'' \<noteq> ''html''" by simp
  with run have "s' = Some \<lparr>stats_width = Some (offsetWidth d), stats_height = Some (offsetHeight d)\<rparr>"
    using leaf_stats_undefined [where measured = "?o" and c = None and k = "Some [Str ''a'']"
        and s = "?s" and opr = "''+''" and d = d and s' = s']
    by blast
  with run size have "appendToDOM ?o (Obj ''+'' None (Some [Str ''a''])) (Some ?s) =
        Inr (d, Some \<lparr>stats_width = Some 42, stats_height = Some 21\<rparr>)"
    by simp
  moreover have "appendToDOM ?o (Str ''a'') (Some \<lparr>stats_width = Some 1, stats_height = Some 1\<rparr>) =
        Inr (leafDiv ?o (Some ''a''), Some \<lparr>stats_width = None, stats_height = None\<rparr>)"
    using leaf_stats_undefined [where measured = "?o" and t = "''a''"
        and s = "\<lparr>stats_width = Some 1, stats_height = Some 1\<rparr>"]
    by blast
  moreover have "offsetWidth (leafDiv ?o (Some ''a'')) = 10 \<and> offsetHeight (leafDiv ?o (Some ''a'')) = 5"
    by (simp add: leafDiv_def Let_def)
  ultimately show ?thesis by blast
qed

section \<open>The invariant of the builder\<close>

lemma toNode_invariant: "toNode v = Inr n \<Longrightarrow> invariant v \<Longrightarrow> invariant n"
  by (cases v) auto

lemma addItem_invariant:
  "addItem v items = Inr items' \<Longrightarrow> invariant v \<Longrightarrow>
     \<forall>x \<in> set items. invariant x \<and> \<not> hasOp ''.'' x \<Longrightarrow>
     (\<forall>x \<in> set items'. invariant x \<and> \<not> hasOp ''.'' x) \<and> length items < length items'"
  "addItems vs items = Inr items' \<Longrightarrow> \<forall>v \<in> set vs. invariant v \<Longrightarrow>
     \<forall>x \<in> set items. invariant x \<and> \<not> hasOp ''.'' x \<Longrightarrow>
     (\<forall>x \<in> set items'. invariant x \<and> \<not> hasOp ''.'' x) \<and>
     length items + length vs \<le> length items'"
proof (induction v items and vs items arbitrary: items' and items' rule: addItem_addItems.induct)
  case (3 opr c k items)
  show ?case
  proof (cases "opr = ''.''")
    case True
    with "3.prems" obtain cs where k: "k = Some cs" by (cases k) auto
    with True "3.prems" have "addItems cs items = Inr items'" "\<forall>v \<in> set cs. invariant v"
      "2 \<le> length cs" by auto
    with "3.IH" [OF True k] "3.prems"(3) show ?thesis by fastforce
  next
    case False
    with "3.prems" show ?thesis by (cases k) auto
  qed
next
  case (6 item rest items)
  from "6.prems"(1) obtain mid where mid: "addItem item items = Inr mid"
    and rest: "addItems rest mid = Inr items'"
    by (auto split: sum.splits)
  from "6.IH"(1) [OF mid] "6.prems" have m: "\<forall>x \<in> set mid. invariant x \<and> \<not> hasOp ''.'' x"
    "length items < length mid" by auto
  from "6.IH"(2) [OF mid rest] "6.prems"(2) m(1)
  have "(\<forall>x \<in> set items'. invariant x \<and> \<not> hasOp ''.'' x) \<and> length mid + length rest \<le> length items'"
    by simp
  with m(2) show ?case by simp
qed auto

lemma each_invariant:
  assumes "each args = Inr r" "args \<noteq> []" "\<forall>a \<in> set args. invariant a"
  shows "invariant r"
proof -
  from assms(1) obtain items where items: "addItems args [] = Inr items"
    and r: "r = (if length items = 1 then items ! 0 else Obj ''.'' None (Some items))"
    by (auto simp: each_def split: sum.splits if_splits)
  from addItem_invariant(2) [OF items assms(3)]
  have inv: "\<forall>x \<in> set items. invariant x \<and> \<not> hasOp ''.'' x" and len: "length args \<le> length items"
    by auto
  from len assms(2) have "items \<noteq> []" by auto
  show ?thesis
  proof (cases "length items = 1")
    case True
    then have "items ! 0 \<in> set items" by simp
    with inv r True show ?thesis by simp
  next
    case False
    with \<open>items \<noteq> []\<close> have "2 \<le> length items" by (cases items) (auto simp: Suc_le_eq)
    with inv r False show ?thesis by simp
  qed
qed

lemma addOption_invariant:
  "addOption v st = Inr st' \<Longrightarrow> invariant v \<Longrightarrow> or_inv st \<Longrightarrow> or_inv st' \<and> fst st' \<noteq> []"
  "addOptions vs st = Inr st' \<Longrightarrow> \<forall>v \<in> set vs. invariant v \<Longrightarrow> or_inv st \<Longrightarrow>
     or_inv st' \<and> (vs \<noteq> [] \<longrightarrow> fst st' \<noteq> [])"
proof (induction v st and vs st arbitrary: st' and st' rule: addOption_addOptions.induct)
  case (3 opr c k options alreadySeen)
  show ?case
  proof (cases "opr = ''|''")
    case True
    with "3.prems" obtain cs where k: "k = Some cs" by (cases k) auto
    with True "3.prems" have "addOptions cs (options, alreadySeen) = Inr st'"
      "\<forall>v \<in> set cs. invariant v" "cs \<noteq> []" by auto
    with "3.IH" [OF True k] "3.prems"(3) show ?thesis by blast
  next
    case False
    with "3.prems" show ?thesis
      by (cases k) (auto simp: or_inv_def split: if_splits)
  qed
next
  case (6 child rest st)
  from "6.prems"(1) obtain mid where mid: "addOption child st = Inr mid"
    and rest: "addOptions rest mid = Inr st'"
    by (auto split: sum.splits)
  from "6.IH"(1) [OF mid] "6.prems" have m: "or_inv mid" "fst mid \<noteq> []" by auto
  from "6.IH"(2) [OF mid rest] "6.prems"(2) m(1)
  have r: "or_inv st' \<and> (rest \<noteq> [] \<longrightarrow> fst st' \<noteq> [])" by simp
  show ?case
  proof (cases rest)
    case Nil
    with rest m show ?thesis by simp
  next
    case (Cons a list)
    with r show ?thesis by simp
  qed
qed (auto simp: or_inv_def)

lemma or_node_invariant:
  assumes "or_node args = Inr r" "args \<noteq> []" "\<forall>a \<in> set args. invariant a"
  shows "invariant r"
proof -
  from assms(1) obtain options seen where st: "addOptions args ([], {}) = Inr (options, seen)"
    and r: "r = (if length options = 1 then options ! 0 else Obj ''|'' None (Some options))"
    by (auto simp: or_node_def split: sum.splits if_splits)
  have "or_inv ([], {})" by (simp add: or_inv_def)
  from addOption_invariant(2) [OF st assms(3) this] assms(2)
  have inv: "\<forall>x \<in> set options. invariant x \<and> \<not> hasOp ''|'' x" and ne: "options \<noteq> []"
    by (auto simp: or_inv_def)
  show ?thesis
  proof (cases "length options = 1")
    case True
    then have "options ! 0 \<in> set options" by simp
    with inv r True show ?thesis by simp
  next
    case False
    with ne have "2 \<le> length options" by (cases options) (auto simp: Suc_le_eq)
    with inv r False show ?thesis by simp
  qed
qed

lemma maybe_invariant:
  assumes "maybe x = Inr r" "invariant x"
  shows "invariant r"
proof -
  from assms(1) obtain n where n: "toNode x = Inr n"
    and r: "or_node [Obj ''html'' (Some bypass) None, n] = Inr r"
    by (auto simp: maybe_def split: sum.splits)
  from n assms(2) have "invariant n" by (rule toNode_invariant)
  with or_node_invariant [OF r] show ?thesis by simp
qed

text \<open>
  C3. Every node returned by the builder is claimed to satisfy the invariant, for
  every argument list, the empty one included. Called with no argument, \<open>or\<close> returns a
  \<^verbatim>\<open>'|'\<close> node without children and \<open>each\<close> a \<^verbatim>\<open>'.'\<close> node without children: the
  source returns the only element when there is exactly one, and wraps the list in a
  node otherwise.
\<close>

theorem empty_call_counterexample:
  "or_node [] = Inr (Obj ''|'' None (Some [])) \<and> \<not> invariant (Obj ''|'' None (Some [])) \<and>
   each [] = Inr (Obj ''.'' None (Some [])) \<and> \<not> invariant (Obj ''.'' None (Some []))"
  by (simp add: or_node_def each_def)


text \<open>
  C3, amended. When \<open>each\<close> and \<open>or\<close> are given at least one argument, and every
  argument of a builder function is a text or a node that satisfies the invariant, then
  the node returned satisfies the invariant. With no argument, \<open>each\<close> and \<open>or\<close> return
  a node without children.
\<close>

theorem builder_keeps_invariant:
  assumes "\<forall>a \<in> set args. invariant a" and "invariant x"
  shows "(args \<noteq> [] \<and> each args = Inr r \<longrightarrow> invariant r) \<and>
         (args \<noteq> [] \<and> or_node args = Inr r \<longrightarrow> invariant r) \<and>
         (maybe x = Inr r \<longrightarrow> invariant r) \<and>
         invariant (many x) \<and>
         (any x = Inr r \<longrightarrow> invariant r) \<and>
         each [] = Inr (Obj ''.'' None (Some [])) \<and>
         or_node [] = Inr (Obj ''|'' None (Some []))"
proof -
  have many: "invariant (many x)" using assms(2) by (simp add: many_def)
  then have "any x = Inr r \<longrightarrow> invariant r"
    by (auto simp: any_def intro: maybe_invariant)
  with many assms show ?thesis
    by (auto simp: each_def or_node_def intro: each_invariant or_node_invariant maybe_invariant)
qed

theorem builder_keeps_invariant_witness:
  "invariant (Str ''a'') \<and> invariant (Obj ''.'' None (Some [Str ''b'', Str ''c''])) \<and>
   invariant (Str ''x'') \<and>
   each [Str ''a'', Obj ''.'' None (Some [Str ''b'', Str ''c''])] =
     Inr (Obj ''.'' None (Some [Obj ''html'' (Some ''a'') None, Obj ''html'' (Some ''b'') None,
                                Obj ''html'' (Some ''c'') None])) \<and>
   invariant (Obj ''.'' None (Some [Obj ''html'' (Some ''a'') None, Obj ''html'' (Some ''b'') None,
                                    Obj ''html'' (Some ''c'') None])) \<and>
   or_node [Str ''a'', Obj ''.'' None (Some [Str ''b'', Str ''c''])] =
     Inr (Obj ''|'' None (Some [Obj ''html'' (Some ''a'') None,
                                Obj ''.'' None (Some [Str ''b'', Str ''c''])])) \<and>
   invariant (Obj ''|'' None (Some [Obj ''html'' (Some ''a'') None,
                                    Obj ''.'' None (Some [Str ''b'', Str ''c''])])) \<and>
   maybe (Str ''x'') =
     Inr (Obj ''|'' None (Some [Obj ''html'' (Some bypass) None, Obj ''html'' (Some ''x'') None])) \<and>
   invariant (Obj ''|'' None (Some [Obj ''html'' (Some bypass) None,
                                    Obj ''html'' (Some ''x'') None])) \<and>
   any (Str ''x'') =
     Inr (Obj ''|'' None (Some [Obj ''html'' (Some bypass) None,
                                Obj ''+'' None (Some [Str ''x''])])) \<and>
   invariant (Obj ''|'' None (Some [Obj ''html'' (Some bypass) None,
                                    Obj ''+'' None (Some [Str ''x''])]))"
proof -
  let ?args = "[Str ''a'', Obj ''.'' None (Some [Str ''b'', Str ''c''])]"
  have args: "\<forall>a \<in> set ?args. invariant a" and x: "invariant (Str ''x'')" and ne: "?args \<noteq> []"
    by simp_all
  have e: "each ?args = Inr (Obj ''.'' None (Some [Obj ''html'' (Some ''a'') None,
             Obj ''html'' (Some ''b'') None, Obj ''html'' (Some ''c'') None]))"
    by (simp add: each_def)
  have o: "or_node ?args = Inr (Obj ''|'' None (Some [Obj ''html'' (Some ''a'') None,
             Obj ''.'' None (Some [Str ''b'', Str ''c''])]))"
    by (simp add: or_node_def)
  have m: "maybe (Str ''x'') = Inr (Obj ''|'' None (Some [Obj ''html'' (Some bypass) None,
             Obj ''html'' (Some ''x'') None]))"
    by (simp add: maybe_def or_node_def bypass_def)
  have a: "any (Str ''x'') = Inr (Obj ''|'' None (Some [Obj ''html'' (Some bypass) None,
             Obj ''+'' None (Some [Str ''x''])]))"
    by (simp add: any_def many_def maybe_def or_node_def bypass_def)
  note keeps = builder_keeps_invariant [OF args x]
  from keeps [THEN conjunct1] ne e
  have 1: "invariant (Obj ''.'' None (Some [Obj ''html'' (Some ''a'') None,
             Obj ''html'' (Some ''b'') None, Obj ''html'' (Some ''c'') None]))"
    by blast
  from keeps [THEN conjunct2, THEN conjunct1] ne o
  have 2: "invariant (Obj ''|'' None (Some [Obj ''html'' (Some ''a'') None,
             Obj ''.'' None (Some [Str ''b'', Str ''c''])]))"
    by blast
  from keeps [THEN conjunct2, THEN conjunct2, THEN conjunct1] m
  have 3: "invariant (Obj ''|'' None (Some [Obj ''html'' (Some bypass) None,
             Obj ''html'' (Some ''x'') None]))"
    by blast
  from keeps [THEN conjunct2, THEN conjunct2, THEN conjunct2, THEN conjunct2, THEN conjunct1] a
  have 4: "invariant (Obj ''|'' None (Some [Obj ''html'' (Some bypass) None,
             Obj ''+'' None (Some [Str ''x''])]))"
    by blast
  from x e o m a 1 2 3 4 show ?thesis by simp
qed

section \<open>Flattening of nested choices\<close>










lemma addOption_isOption:
  "addOption v st = Inr st' \<Longrightarrow> \<forall>x \<in> set (fst st). isOption x \<Longrightarrow> \<forall>x \<in> set (fst st'). isOption x"
  "addOptions vs st = Inr st' \<Longrightarrow> \<forall>x \<in> set (fst st). isOption x \<Longrightarrow> \<forall>x \<in> set (fst st'). isOption x"
proof (induction v st and vs st arbitrary: st' and st' rule: addOption_addOptions.induct)
  case (3 opr c k options alreadySeen)
  show ?case
  proof (cases "opr = ''|''")
    case True
    with "3.prems" obtain cs where k: "k = Some cs" by (cases k) auto
    with True "3.prems" have "addOptions cs (options, alreadySeen) = Inr st'" by auto
    with "3.IH" [OF True k] "3.prems"(2) show ?thesis by blast
  next
    case False
    with "3.prems" show ?thesis by (auto split: if_splits)
  qed
next
  case (6 child rest st)
  from "6.prems"(1) obtain mid where mid: "addOption child st = Inr mid"
    and rest: "addOptions rest mid = Inr st'"
    by (auto split: sum.splits)
  from "6.IH"(1) [OF mid] "6.prems" have "\<forall>x \<in> set (fst mid). isOption x" by auto
  with "6.IH"(2) [OF mid rest] show ?case by simp
qed auto

lemma isOption_noTextOption: "isOption x \<Longrightarrow> noTextOption x"
  by (cases x rule: noTextOption.cases) auto

lemma or_node_noTextOption: "or_node args = Inr r \<Longrightarrow> noTextOption r"
proof -
  assume "or_node args = Inr r"
  then obtain options seen where st: "addOptions args ([], {}) = Inr (options, seen)"
    and r: "r = (if length options = 1 then options ! 0 else Obj ''|'' None (Some options))"
    by (auto simp: or_node_def split: sum.splits if_splits)
  from addOption_isOption(2) [OF st] have opt: "\<forall>x \<in> set options. isOption x" by simp
  show ?thesis
  proof (cases "length options = 1")
    case True
    then have "options ! 0 \<in> set options" by simp
    with opt r True show ?thesis by (simp add: isOption_noTextOption)
  next
    case False
    with opt r show ?thesis by (simp add: isOption_noTextOption)
  qed
qed




text \<open>
  Texts are not covered: passed to \<open>or\<close> directly two equal texts are both kept, and
  only the outer call, which finds them as \<^verbatim>\<open>'html'\<close> nodes, drops the second.
\<close>

lemma or_of_texts_not_flat:
  "(case or_node [Str ''x'', Str ''x''] of Inl e \<Rightarrow> Inl e | Inr r \<Rightarrow> or_node [r, Str ''y'']) =
     Inr (Obj ''|'' None (Some [Obj ''html'' (Some ''x'') None, Obj ''html'' (Some ''y'') None])) \<and>
   or_node [Str ''x'', Str ''x'', Str ''y''] =
     Inr (Obj ''|'' None (Some [Obj ''html'' (Some ''x'') None, Obj ''html'' (Some ''x'') None,
                                Obj ''html'' (Some ''y'') None]))"
  by (simp add: or_node_def)

section \<open>Unsupported nodes\<close>

lemma mapM_Inr_iff: "(\<exists>ys. mapM f xs = Inr ys) \<longleftrightarrow> (\<forall>x \<in> set xs. \<exists>y. f x = Inr y)"
  by (induction xs) (auto split: sum.splits)

lemma mapM_Inl: "mapM f xs = Inl e \<Longrightarrow> \<exists>x \<in> set xs. f x = Inl e"
  by (induction xs) (auto split: sum.splits)

lemma mapM_length: "mapM f xs = Inr ys \<Longrightarrow> length ys = length xs"
  by (induction xs arbitrary: ys) (auto split: sum.splits)

lemma layoutNode_known:
  "known opr \<Longrightarrow> opr \<noteq> ''html'' \<Longrightarrow> (opr = ''+'' \<longrightarrow> divs \<noteq> []) \<Longrightarrow> \<exists>l. layoutNode opr divs = Inr l"
proof -
  assume k: "known opr" "opr \<noteq> ''html''" and ne: "opr = ''+'' \<longrightarrow> divs \<noteq> []"
  show ?thesis
  proof (cases "opr = ''+''")
    case True
    with ne obtain d rest where "divs = d # rest" by (cases divs) auto
    with True show ?thesis by (simp add: layoutNode_def Let_def)
  next
    case False
    with k have "opr = ''|'' \<or> opr = ''.''" by (auto simp: known_def)
    then show ?thesis by (elim disjE) (simp_all add: layoutNode_def del: split_paired_Ex)
  qed
qed

lemma layoutNode_unknown: "\<not> known opr \<Longrightarrow> layoutNode opr divs = Inl (UnsupportedNodeError opr)"
  by (auto simp: layoutNode_def known_def)

lemma appendToDOM_renderable:
  "renderable v \<Longrightarrow>
     (unsupported v \<longrightarrow> (\<exists>opr. appendToDOM measured v st = Inl (UnsupportedNodeError opr) \<and> \<not> known opr)) \<and>
     (\<not> unsupported v \<longrightarrow> (\<exists>r. appendToDOM measured v st = Inr r))"
proof (induction v arbitrary: st rule: renderable.induct)
  case (1 s)
  show ?case by (simp add: appendToDOM_Str)
next
  case (2 opr c)
  then show ?case by (simp add: appendToDOM_html known_def)
next
  case (3 opr c cs)
  show ?case
  proof (cases "opr = ''html''")
    case True
    then show ?thesis by (simp add: appendToDOM_html)
  next
    case False
    let ?f = "\<lambda>c. appendToDOM measured c None"
    from "3.prems" False have plus: "opr = ''+'' \<longrightarrow> cs \<noteq> []" and kids: "\<forall>x \<in> set cs. renderable x"
      by auto
    have each: "(unsupported x \<longrightarrow> (\<exists>opr. ?f x = Inl (UnsupportedNodeError opr) \<and> \<not> known opr)) \<and>
        (\<not> unsupported x \<longrightarrow> (\<exists>r. ?f x = Inr r))" if "x \<in> set cs" for x
      using "3.IH" [OF that] kids that by blast
    show ?thesis
    proof (cases "\<exists>x \<in> set cs. unsupported x")
      case True
      then obtain x where x: "x \<in> set cs" "unsupported x" by blast
      with each [of x] have "\<not> (\<exists>y. ?f x = Inr y)" by auto
      with x(1) have "\<not> (\<exists>ys. mapM ?f cs = Inr ys)" by (auto simp: mapM_Inr_iff)
      then obtain e where e: "mapM ?f cs = Inl e" by (cases "mapM ?f cs") auto
      from mapM_Inl [OF e] obtain x' where x': "x' \<in> set cs" "?f x' = Inl e" by blast
      with each [of x'] obtain opr' where "e = UnsupportedNodeError opr'" "\<not> known opr'"
        by (cases "unsupported x'") auto
      with e True False show ?thesis by (auto simp: appendToDOM_composite)
    next
      case none: False
      with each have "\<forall>x \<in> set cs. \<exists>y. ?f x = Inr y" by blast
      then obtain rs where rs: "mapM ?f cs = Inr rs" using mapM_Inr_iff [of ?f cs] by blast
      from mapM_length [OF rs] plus have ne: "opr = ''+'' \<longrightarrow> map fst rs \<noteq> []" by auto
      show ?thesis
      proof (cases "known opr")
        case True
        from layoutNode_known [OF True False ne] obtain l where "layoutNode opr (map fst rs) = Inr l"
          by blast
        with rs none True False show ?thesis
          by (auto simp: appendToDOM_composite split: prod.splits)
      next
        case unk: False
        with rs layoutNode_unknown [OF unk] False show ?thesis
          by (auto simp: appendToDOM_composite)
      qed
    qed
  qed
qed auto

lemma canonical_renderable: "canonical v \<Longrightarrow> renderable v \<and> \<not> unsupported v"
  by (induction v rule: canonical.induct) (auto simp: known_def)

lemma canonical_noTextOption: "canonical v \<Longrightarrow> \<not> isText v \<Longrightarrow> noTextOption v"
proof (induction v rule: canonical.induct)
  case (3 opr c cs)
  have "noTextOption x" if "x \<in> set cs" "opr = ''|''" for x
  proof -
    from "3.prems" that have "isOption x" "canonical x" by auto
    moreover from \<open>isOption x\<close> have "\<not> isText x" by (cases x) auto
    ultimately show ?thesis using "3.IH" that(1) by blast
  qed
  then show ?case by auto
qed auto

lemma toNode_canonical: "toNode v = Inr n \<Longrightarrow> canonical v \<Longrightarrow> canonicalNode n"
  by (cases v) (auto simp: canonicalNode_def)

lemma addItem_canonical:
  "addItem v items = Inr items' \<Longrightarrow> canonical v \<Longrightarrow> \<forall>x \<in> set items. canonicalNode x \<Longrightarrow>
     \<forall>x \<in> set items'. canonicalNode x"
  "addItems vs items = Inr items' \<Longrightarrow> \<forall>v \<in> set vs. canonical v \<Longrightarrow>
     \<forall>x \<in> set items. canonicalNode x \<Longrightarrow> \<forall>x \<in> set items'. canonicalNode x"
proof (induction v items and vs items arbitrary: items' and items' rule: addItem_addItems.induct)
  case (3 opr c k items)
  show ?case
  proof (cases "opr = ''.''")
    case True
    with "3.prems" obtain cs where k: "k = Some cs" by (cases k) auto
    with True "3.prems" have "addItems cs items = Inr items'" "\<forall>v \<in> set cs. canonical v" by auto
    with "3.IH" [OF True k] "3.prems"(3) show ?thesis by blast
  next
    case False
    with "3.prems" show ?thesis by (auto simp: canonicalNode_def)
  qed
next
  case (6 item rest items)
  from "6.prems"(1) obtain mid where mid: "addItem item items = Inr mid"
    and rest: "addItems rest mid = Inr items'"
    by (auto split: sum.splits)
  from "6.IH"(1) [OF mid] "6.prems" have "\<forall>x \<in> set mid. canonicalNode x" by auto
  with "6.IH"(2) [OF mid rest] "6.prems"(2) show ?case by simp
qed (auto simp: canonicalNode_def)

lemma each_canonical:
  assumes "each args = Inr r" "\<forall>a \<in> set args. canonical a"
  shows "canonicalNode r"
proof -
  from assms(1) obtain items where items: "addItems args [] = Inr items"
    and r: "r = (if length items = 1 then items ! 0 else Obj ''.'' None (Some items))"
    by (auto simp: each_def split: sum.splits if_splits)
  from addItem_canonical(2) [OF items assms(2)] have all: "\<forall>x \<in> set items. canonicalNode x" by simp
  show ?thesis
  proof (cases "length items = 1")
    case True
    then have "items ! 0 \<in> set items" by simp
    with all r True show ?thesis by simp
  next
    case False
    with all r show ?thesis by (simp add: canonicalNode_def)
  qed
qed

lemma addOption_canonical:
  "addOption v st = Inr st' \<Longrightarrow> canonical v \<Longrightarrow> \<forall>x \<in> set (fst st). canonical x \<Longrightarrow>
     \<forall>x \<in> set (fst st'). canonical x"
  "addOptions vs st = Inr st' \<Longrightarrow> \<forall>v \<in> set vs. canonical v \<Longrightarrow>
     \<forall>x \<in> set (fst st). canonical x \<Longrightarrow> \<forall>x \<in> set (fst st'). canonical x"
proof (induction v st and vs st arbitrary: st' and st' rule: addOption_addOptions.induct)
  case (3 opr c k options alreadySeen)
  show ?case
  proof (cases "opr = ''|''")
    case True
    with "3.prems" obtain cs where k: "k = Some cs" by (cases k) auto
    with True "3.prems" have "addOptions cs (options, alreadySeen) = Inr st'"
      "\<forall>v \<in> set cs. canonical v" by auto
    with "3.IH" [OF True k] "3.prems"(3) show ?thesis by blast
  next
    case False
    with "3.prems" show ?thesis by (auto split: if_splits)
  qed
next
  case (6 child rest st)
  from "6.prems"(1) obtain mid where mid: "addOption child st = Inr mid"
    and rest: "addOptions rest mid = Inr st'"
    by (auto split: sum.splits)
  from "6.IH"(1) [OF mid] "6.prems" have "\<forall>x \<in> set (fst mid). canonical x" by auto
  with "6.IH"(2) [OF mid rest] "6.prems"(2) show ?case by simp
qed auto

lemma or_node_canonical:
  assumes "or_node args = Inr r" "\<forall>a \<in> set args. canonical a"
  shows "canonicalNode r"
proof -
  from assms(1) obtain options seen where st: "addOptions args ([], {}) = Inr (options, seen)"
    and r: "r = (if length options = 1 then options ! 0 else Obj ''|'' None (Some options))"
    by (auto simp: or_node_def split: sum.splits if_splits)
  from addOption_canonical(2) [OF st assms(2)] have can: "\<forall>x \<in> set options. canonical x" by simp
  from addOption_isOption(2) [OF st] have opt: "\<forall>x \<in> set options. isOption x" by simp
  have nt: "\<not> isText x" if "isOption x" for x using that by (cases x) auto
  show ?thesis
  proof (cases "length options = 1")
    case True
    then have "options ! 0 \<in> set options" by simp
    with can opt r True nt show ?thesis by (simp add: canonicalNode_def)
  next
    case False
    with can opt r show ?thesis by (simp add: canonicalNode_def)
  qed
qed

lemma maybe_canonical:
  assumes "maybe x = Inr r" "canonical x"
  shows "canonicalNode r"
proof -
  from assms(1) obtain n where n: "toNode x = Inr n"
    and r: "or_node [Obj ''html'' (Some bypass) None, n] = Inr r"
    by (auto simp: maybe_def split: sum.splits)
  from toNode_canonical [OF n assms(2)] have "canonical n" by (simp add: canonicalNode_def)
  with or_node_canonical [OF r] show ?thesis by simp
qed

lemma isText_canonical: "isText a \<Longrightarrow> canonical a"
  by (cases a) auto

lemma built_canonical: "built v \<Longrightarrow> canonicalNode v"
proof (induction rule: built.induct)
  case (built_each args r)
  then have "\<forall>a \<in> set args. canonical a" by (auto simp: canonicalNode_def isText_canonical)
  with built_each(2) show ?case by (rule each_canonical)
next
  case (built_or args r)
  then have "\<forall>a \<in> set args. canonical a" by (auto simp: canonicalNode_def isText_canonical)
  with built_or(2) show ?case by (rule or_node_canonical)
next
  case (built_maybe x r)
  then have "canonical x" by (auto simp: canonicalNode_def isText_canonical)
  with built_maybe(2) show ?case by (rule maybe_canonical)
next
  case (built_many x)
  then have "canonical x" by (auto simp: canonicalNode_def isText_canonical)
  then show ?case by (simp add: many_def canonicalNode_def)
next
  case (built_any x r)
  then have "canonical x" by (auto simp: canonicalNode_def isText_canonical)
  then have "canonical (many x)" by (simp add: many_def)
  with built_any(2) show ?case unfolding any_def by (rule maybe_canonical)
qed

lemma built_noTextOption: "built v \<Longrightarrow> noTextOption v"
  using built_canonical [of v] by (simp add: canonicalNode_def canonical_noTextOption)

lemma appendToDOM_unsupported_fails:
  "unsupported t \<Longrightarrow> \<exists>e. appendToDOM measured t st = Inl e"
proof (induction t arbitrary: st rule: measure_induct_rule [where f = size])
  case (less t)
  show ?case
  proof (cases t)
    case (Obj opr c k)
    show ?thesis
    proof (cases k)
      case None
      with Obj less.prems have "opr \<noteq> ''html''" by (auto simp: known_def)
      with Obj None show ?thesis by (simp add: appendToDOM_no_children)
    next
      case (Some cs)
      with Obj less.prems have nh: "opr \<noteq> ''html''"
        and un: "\<not> known opr \<or> (\<exists>x \<in> set cs. unsupported x)"
        by auto
      show ?thesis
      proof (cases "mapM (\<lambda>c. appendToDOM measured c None) cs")
        case (Inl e)
        with Obj Some nh show ?thesis by (simp add: appendToDOM_composite)
      next
        case (Inr rs)
        then have all: "\<forall>x \<in> set cs. \<exists>y. appendToDOM measured x None = Inr y"
          using mapM_Inr_iff [of "\<lambda>c. appendToDOM measured c None" cs] by blast
        have "\<not> unsupported x" if "x \<in> set cs" for x
        proof
          assume "unsupported x"
          moreover from size_child [OF that] Obj Some have "size x < size t" by simp
          ultimately obtain e where "appendToDOM measured x None = Inl e"
            using less.IH [of x None] by blast
          with all that show False by auto
        qed
        with un have "\<not> known opr" by blast
        from layoutNode_unknown [OF this] Inr Obj Some nh show ?thesis
          by (simp add: appendToDOM_composite)
      qed
    qed
  qed (use less.prems in simp_all)
qed

text \<open>
  A node with an unknown tag that is passed to a public function is kept in the result,
  so that the trees for which the default case is out of reach are those built from
  texts.
\<close>

lemma each_keeps_unknown_tag:
  "each [Obj ''?'' None (Some []), Str ''a''] =
     Inr (Obj ''.'' None (Some [Obj ''?'' None (Some []), Obj ''html'' (Some ''a'') None]))"
  "appendToDOM measured
     (Obj ''.'' None (Some [Obj ''?'' None (Some []), Obj ''html'' (Some ''a'') None])) st =
     Inl (UnsupportedNodeError ''?'')"
  by (simp_all add: each_def appendToDOM_composite layoutNode_def)

text \<open>
  C8. Every tree that contains a node with a tag other than \<^verbatim>\<open>'html'\<close>, \<^verbatim>\<open>'|'\<close>, \<^verbatim>\<open>'+'\<close>,
  \<^verbatim>\<open>'.'\<close> is claimed to make \<open>appendToDOM\<close> throw the error of its default case. The
  source reads \<^verbatim>\<open>node.children.length\<close> before it looks at the tag: for a node
  \<^verbatim>\<open>{op: '?'}\<close>, which has no \<^verbatim>\<open>children\<close>, this read throws a \<^verbatim>\<open>TypeError\<close>, alone and
  as the child of a \<^verbatim>\<open>'.'\<close> node, and the default case is not reached.
\<close>

theorem unknown_tag_type_error_counterexample:
  "unsupported (Obj ''?'' None None) \<and>
   appendToDOM (\<lambda>_. (10, 5)) (Obj ''?'' None None) None = Inl TypeError \<and>
   unsupported (Obj ''.'' None (Some [Str ''a'', Obj ''?'' None None])) \<and>
   appendToDOM (\<lambda>_. (10, 5)) (Obj ''.'' None (Some [Str ''a'', Obj ''?'' None None])) None =
     Inl TypeError"
  by (simp add: known_def appendToDOM_no_children appendToDOM_composite appendToDOM_Str)

text \<open>
  C8, amended. A tree that contains a node whose tag is none of \<^verbatim>\<open>'html'\<close>, \<^verbatim>\<open>'|'\<close>,
  \<^verbatim>\<open>'+'\<close>, \<^verbatim>\<open>'.'\<close> is never rendered: \<open>appendToDOM\<close> throws an error. When the tree can
  be rendered apart from its tags, the error is that of the default case, and it carries
  such a tag. A node with such a tag and no \<^verbatim>\<open>children\<close> throws a \<^verbatim>\<open>TypeError\<close> instead.
  On a tree produced by the public functions from texts \<open>appendToDOM\<close> returns an
  element, so that no error is thrown at all.
\<close>

theorem unsupported_node_error:
  "(unsupported t \<longrightarrow> (\<exists>e. appendToDOM measured t st = Inl e)) \<and>
   (renderable t \<and> unsupported t \<longrightarrow>
      (\<exists>opr. appendToDOM measured t st = Inl (UnsupportedNodeError opr) \<and> \<not> known opr)) \<and>
   (\<not> known tag \<longrightarrow> appendToDOM measured (Obj tag c None) st = Inl TypeError) \<and>
   (built t \<longrightarrow> (\<exists>r. appendToDOM measured t st = Inr r))"
proof -
  have "\<exists>r. appendToDOM measured t st = Inr r" if "built t"
  proof -
    from built_canonical [OF that] have "canonical t" by (simp add: canonicalNode_def)
    from canonical_renderable [OF this] appendToDOM_renderable [of t measured st]
    show ?thesis by blast
  qed
  moreover have "appendToDOM measured (Obj tag c None) st = Inl TypeError" if "\<not> known tag"
    using that by (intro appendToDOM_no_children) (auto simp: known_def)
  ultimately show ?thesis
    using appendToDOM_renderable [of t measured st]
      appendToDOM_unsupported_fails [of t measured st]
    by blast
qed

theorem unsupported_node_error_witness:
  "renderable (Obj ''.'' None (Some [Str ''a'', Obj ''?'' None (Some [])])) \<and>
   unsupported (Obj ''.'' None (Some [Str ''a'', Obj ''?'' None (Some [])])) \<and>
   (\<exists>opr. appendToDOM (\<lambda>_. (10, 5)) (Obj ''.'' None (Some [Str ''a'', Obj ''?'' None (Some [])])) None =
      Inl (UnsupportedNodeError opr) \<and> \<not> known opr) \<and>
   unsupported (Obj ''|'' None (Some [Undefined, Obj ''?'' None (Some [])])) \<and>
   (\<exists>e. appendToDOM (\<lambda>_. (10, 5)) (Obj ''|'' None (Some [Undefined, Obj ''?'' None (Some [])])) None =
      Inl e) \<and>
   \<not> known ''?'' \<and>
   appendToDOM (\<lambda>_. (10, 5)) (Obj ''?'' (Some ''x'') None) None = Inl TypeError \<and>
   built (Obj ''|'' None (Some [Obj ''html'' (Some ''a'') None, Obj ''+'' None (Some [Str ''b''])])) \<and>
   (\<exists>r. appendToDOM (\<lambda>_. (10, 5))
      (Obj ''|'' None (Some [Obj ''html'' (Some ''a'') None, Obj ''+'' None (Some [Str ''b''])])) None = Inr r)"
proof -
  let ?bad = "Obj ''.'' None (Some [Str ''a'', Obj ''?'' None (Some [])])"
  let ?worse = "Obj ''|'' None (Some [Undefined, Obj ''?'' None (Some [])])"
  let ?good = "Obj ''|'' None (Some [Obj ''html'' (Some ''a'') None, Obj ''+'' None (Some [Str ''b''])])"
  have bad: "renderable ?bad" "unsupported ?bad" "unsupported ?worse" "\<not> known ''?''"
    by (simp_all add: known_def)
  have "built (many (Str ''b''))" by (rule built_many) simp
  then have "\<forall>a \<in> set [Str ''a'', many (Str ''b'')]. isText a \<or> built a" by simp
  moreover have "or_node [Str ''a'', many (Str ''b'')] = Inr ?good"
    by (simp add: or_node_def many_def)
  ultimately have good: "built ?good" by (rule built_or)
  from bad good
    unsupported_node_error [of ?bad "\<lambda>_. (10, 5)" None "''?''" "Some ''x''"]
    unsupported_node_error [of ?worse "\<lambda>_. (10, 5)" None "''?''" "Some ''x''"]
    unsupported_node_error [of ?good "\<lambda>_. (10, 5)" None "''?''" "Some ''x''"]
  show ?thesis by blast
qed

section \<open>Sizes and positions\<close>

lemma offset_setStyle [simp]:
  "offsetWidth (setStyle name v e) = offsetWidth e"
  "offsetHeight (setStyle name v e) = offsetHeight e"
  by (cases e, simp)+

lemma style_setStyle [simp]:
  "style (setStyle name v e) = (style e)(name \<mapsto> v)"
  by (cases e) simp_all

lemma toInt32_id: "- (2 ^ 31) \<le> x \<Longrightarrow> x < 2 ^ 31 \<Longrightarrow> toInt32 x = x"
proof -
  assume "- (2 ^ 31) \<le> x" "x < 2 ^ 31"
  then have "0 \<le> x + 2 ^ 31" "x + 2 ^ 31 < 2 ^ 32" by simp_all
  then have "(x + 2 ^ 31) mod 2 ^ 32 = x + 2 ^ 31" by (rule mod_pos_pos_trivial)
  then show ?thesis by (simp add: toInt32_def)
qed

lemma shr1_div2: "- (2 ^ 31) \<le> x \<Longrightarrow> x < 2 ^ 31 \<Longrightarrow> shr1 x = x div 2"
  by (simp add: shr1_def toInt32_id)



lemma sequenceHeight_fold:
  "sequenceHeight divs h = fold max (map offsetHeight divs) h"
  by (induction divs arbitrary: h) (simp_all add: max.commute)

lemma sequenceHeight_Max:
  "sequenceHeight divs h = Max (set (h # map offsetHeight divs))"
  by (simp only: sequenceHeight_fold Max.set_eq_fold)

lemma sequenceRow_width:
  "sequenceRow height divs width = (divs', arrows, width') \<Longrightarrow>
     width' = width + sum_list (map offsetWidth divs) + 16 * int (length divs)"
proof (induction divs arbitrary: width divs' arrows width')
  case Nil
  then show ?case by simp
next
  case (Cons d ds)
  from Cons.prems obtain ds' arrows' where
    "sequenceRow height ds (width + offsetWidth d + 16) = (ds', arrows', width')"
    by (auto simp: Let_def split: prod.splits)
  from Cons.IH [OF this] show ?case by simp
qed

lemma layoutSequence_size:
  assumes "layoutSequence divs = (divs', spans, width, height)"
  shows "width = sum_list (map offsetWidth divs) + 16 * (int (length divs) + 1)"
    and "height = Max (set (0 # map offsetHeight divs))"
proof -
  from assms have h: "height = sequenceHeight divs 0"
    by (auto simp: layoutSequence_def Let_def split: prod.splits)
  from assms obtain ds' arrows' where "sequenceRow height divs 16 = (ds', arrows', width)"
    by (auto simp: layoutSequence_def Let_def split: prod.splits)
  from sequenceRow_width [OF this]
  show "width = sum_list (map offsetWidth divs) + 16 * (int (length divs) + 1)" by simp
  from h show "height = Max (set (0 # map offsetHeight divs))"
    by (simp only: sequenceHeight_Max)
qed



lemma choiceWidth_fold:
  "choiceWidth divs w = fold max (map (\<lambda>d. 32 + offsetWidth d) divs) w"
  by (induction divs arbitrary: w) (simp_all add: max.commute)

lemma choiceWidth_Max:
  "choiceWidth divs w = Max (set (w # map (\<lambda>d. 32 + offsetWidth d) divs))"
  by (simp only: choiceWidth_fold Max.set_eq_fold)

lemma Max_nonneg_add:
  assumes "xs \<noteq> []" "\<forall>x \<in> set xs. (0::int) \<le> x" "0 \<le> k"
  shows "Max (set (0 # map (\<lambda>x. k + x) xs)) = Max (set xs) + k"
proof -
  have fin: "finite (set xs)" "set xs \<noteq> {}" using assms by simp_all
  have "Max ((\<lambda>x. x + k) ` set xs) = Max (set xs) + k"
    using fin by (intro Max_add_commute [where f = "\<lambda>x. x", simplified])
  moreover have "(\<lambda>x. k + x) ` set xs = (\<lambda>x. x + k) ` set xs"
    by (rule image_cong) (simp_all only: add.commute)
  ultimately have img: "Max ((\<lambda>x. k + x) ` set xs) = Max (set xs) + k" by simp
  have "Max (set xs) \<in> set xs" using fin by (rule Max_in)
  with assms have nonneg: "0 \<le> Max (set xs) + k" by fastforce
  have "Max (set (0 # map (\<lambda>x. k + x) xs)) = Max (insert 0 ((\<lambda>x. k + x) ` set xs))"
    by simp
  also have "\<dots> = max 0 (Max ((\<lambda>x. k + x) ` set xs))"
    using fin by (intro Max_insert) simp_all
  also have "\<dots> = Max (set xs) + k"
    using img nonneg by simp
  finally show ?thesis .
qed

lemma rowY_0: "rowY hs 0 = 0"
  by (simp add: rowY_def)

lemma rowY_Suc: "rowY (h # hs) (Suc i) = h + 16 + rowY hs i"
  by (simp add: rowY_def)

lemma choiceRows_later:
  assumes "choiceRows width divs i height = (divs', xs, height')" and "i \<noteq> 0"
  shows "length divs' = length divs \<and> length xs = length divs \<and>
     height' = height + sum_list (map (\<lambda>d. offsetHeight d + 16) divs) \<and>
     (\<forall>k < length divs.
        divs' ! k =
          setStyle ''left'' (Px (shr1 (width - offsetWidth (divs ! k))))
            (setStyle ''top'' (Px (height + 16 + rowY (map offsetHeight divs) k)) (divs ! k)) \<and>
        xs ! k =
          (shr1 (width - offsetWidth (divs ! k)),
           shr1 (width - offsetWidth (divs ! k)) + offsetWidth (divs ! k),
           height + 16 + rowY (map offsetHeight divs) k + shr1 (offsetHeight (divs ! k))))"
  using assms
proof (induction divs arbitrary: i height divs' xs height')
  case Nil
  then show ?case by simp
next
  case (Cons d ds)
  from Cons.prems obtain ds' xs' where
    rest: "choiceRows width ds (i + 1) (height + 16 + offsetHeight d) = (ds', xs', height')"
    and divs': "divs' = setStyle ''left'' (Px (shr1 (width - offsetWidth d)))
                  (setStyle ''top'' (Px (height + 16)) d) # ds'"
    and xs: "xs = (shr1 (width - offsetWidth d), shr1 (width - offsetWidth d) + offsetWidth d,
                   height + 16 + shr1 (offsetHeight d)) # xs'"
    by (auto simp: Let_def split: prod.splits)
  from Cons.IH [OF rest] have ih:
    "length ds' = length ds" "length xs' = length ds"
    "height' = height + 16 + offsetHeight d + sum_list (map (\<lambda>d. offsetHeight d + 16) ds)"
    "\<And>k. k < length ds \<Longrightarrow>
        ds' ! k =
          setStyle ''left'' (Px (shr1 (width - offsetWidth (ds ! k))))
            (setStyle ''top'' (Px (height + 16 + offsetHeight d + 16 + rowY (map offsetHeight ds) k)) (ds ! k)) \<and>
        xs' ! k =
          (shr1 (width - offsetWidth (ds ! k)),
           shr1 (width - offsetWidth (ds ! k)) + offsetWidth (ds ! k),
           height + 16 + offsetHeight d + 16 + rowY (map offsetHeight ds) k + shr1 (offsetHeight (ds ! k)))"
    by simp_all
  have "divs' ! k =
          setStyle ''left'' (Px (shr1 (width - offsetWidth ((d # ds) ! k))))
            (setStyle ''top'' (Px (height + 16 + rowY (map offsetHeight (d # ds)) k)) ((d # ds) ! k)) \<and>
        xs ! k =
          (shr1 (width - offsetWidth ((d # ds) ! k)),
           shr1 (width - offsetWidth ((d # ds) ! k)) + offsetWidth ((d # ds) ! k),
           height + 16 + rowY (map offsetHeight (d # ds)) k + shr1 (offsetHeight ((d # ds) ! k)))"
    if "k < length (d # ds)" for k
  proof (cases k)
    case 0
    with divs' xs show ?thesis by (simp add: rowY_0)
  next
    case (Suc k')
    with that have "k' < length ds" by simp
    from ih(4) [OF this] Suc divs' xs show ?thesis
      by (simp add: rowY_Suc add.assoc add.left_commute)
  qed
  with ih(1-3) divs' xs show ?case by simp
qed

lemma sum_list_gaps:
  "sum_list (map (\<lambda>d. offsetHeight d + 16) ds) = sum_list (map offsetHeight ds) + 16 * int (length ds)"
  by (induction ds) simp_all

lemma choiceRows_first:
  assumes "choiceRows width divs 0 height = (divs', xs, height')"
  shows "length divs' = length divs \<and> length xs = length divs \<and>
     (divs \<noteq> [] \<longrightarrow>
        height' = height + sum_list (map offsetHeight divs) + 16 * (int (length divs) - 1)) \<and>
     (\<forall>k < length divs.
        divs' ! k =
          setStyle ''left'' (Px (shr1 (width - offsetWidth (divs ! k))))
            (setStyle ''top'' (Px (height + rowY (map offsetHeight divs) k)) (divs ! k)) \<and>
        xs ! k =
          (shr1 (width - offsetWidth (divs ! k)),
           shr1 (width - offsetWidth (divs ! k)) + offsetWidth (divs ! k),
           height + rowY (map offsetHeight divs) k + shr1 (offsetHeight (divs ! k))))"
proof (cases divs)
  case Nil
  with assms show ?thesis by simp
next
  case (Cons d ds)
  with assms obtain ds' xs' where
    rest: "choiceRows width ds 1 (height + offsetHeight d) = (ds', xs', height')"
    and divs': "divs' = setStyle ''left'' (Px (shr1 (width - offsetWidth d)))
                  (setStyle ''top'' (Px height) d) # ds'"
    and xs: "xs = (shr1 (width - offsetWidth d), shr1 (width - offsetWidth d) + offsetWidth d,
                   height + shr1 (offsetHeight d)) # xs'"
    by (auto simp: Let_def split: prod.splits)
  from choiceRows_later [OF rest] have later:
    "length ds' = length ds" "length xs' = length ds"
    "height' = height + offsetHeight d + sum_list (map (\<lambda>d. offsetHeight d + 16) ds)"
    "\<And>k. k < length ds \<Longrightarrow>
        ds' ! k =
          setStyle ''left'' (Px (shr1 (width - offsetWidth (ds ! k))))
            (setStyle ''top'' (Px (height + offsetHeight d + 16 + rowY (map offsetHeight ds) k)) (ds ! k)) \<and>
        xs' ! k =
          (shr1 (width - offsetWidth (ds ! k)),
           shr1 (width - offsetWidth (ds ! k)) + offsetWidth (ds ! k),
           height + offsetHeight d + 16 + rowY (map offsetHeight ds) k + shr1 (offsetHeight (ds ! k)))"
    by simp_all
  have "divs' ! k =
          setStyle ''left'' (Px (shr1 (width - offsetWidth ((d # ds) ! k))))
            (setStyle ''top'' (Px (height + rowY (map offsetHeight (d # ds)) k)) ((d # ds) ! k)) \<and>
        xs ! k =
          (shr1 (width - offsetWidth ((d # ds) ! k)),
           shr1 (width - offsetWidth ((d # ds) ! k)) + offsetWidth ((d # ds) ! k),
           height + rowY (map offsetHeight (d # ds)) k + shr1 (offsetHeight ((d # ds) ! k)))"
    if "k < length (d # ds)" for k
  proof (cases k)
    case 0
    with divs' xs show ?thesis by (simp add: rowY_0)
  next
    case (Suc k')
    with that have "k' < length ds" by simp
    from later(4) [OF this] Suc divs' xs show ?thesis
      by (simp add: rowY_Suc add.assoc add.left_commute)
  qed
  with later(1-3) divs' xs Cons show ?thesis by (simp add: sum_list_gaps)
qed

lemma choiceArrows_concat:
  "choiceArrows width centerY xs =
     concat (map (\<lambda>(leftX, rightX, childYCenter).
        rightArrow 0 leftX centerY (childYCenter - centerY) (Some 8) @
        rightArrow rightX (width - rightX) childYCenter (centerY - childYCenter) (Some (width - 8))) xs)"
  by (induction xs) auto

lemma choiceRows_nonneg:
  "choiceRows width divs i height = (divs', xs, height') \<Longrightarrow>
     \<forall>d \<in> set divs. 0 \<le> offsetHeight d \<Longrightarrow> height \<le> height'"
proof (induction divs arbitrary: i height divs' xs height')
  case Nil
  then show ?case by simp
next
  case (Cons d ds)
  from Cons.prems(1) obtain ds' xs' where
    "choiceRows width ds (i + 1) ((if i \<noteq> 0 then height + 16 else height) + offsetHeight d) = (ds', xs', height')"
    by (auto simp: Let_def split: prod.splits)
  from Cons.IH [OF this] Cons.prems(2) show ?case by (auto split: if_splits)
qed

lemma choiceWidth_nonneg: "w \<le> choiceWidth divs w"
  unfolding choiceWidth_Max by (rule Max_ge) simp_all

lemma sequenceHeight_nonneg: "h \<le> sequenceHeight divs h"
  unfolding sequenceHeight_Max by (rule Max_ge) simp_all

lemma sum_list_nonneg_int: "\<forall>x \<in> set xs. (0::int) \<le> f x \<Longrightarrow> 0 \<le> sum_list (map f xs)"
  by (induction xs) auto

lemma layoutNode_nonneg:
  assumes "layoutNode opr divs = Inr (divs', sps, width, height)"
    and "\<forall>d \<in> set divs. 0 \<le> offsetWidth d \<and> 0 \<le> offsetHeight d"
  shows "0 \<le> width \<and> 0 \<le> height"
proof -
  consider "opr = ''|''" | "opr = ''+''" | "opr = ''.''"
    using assms(1) by (auto simp: layoutNode_def split: if_splits)
  then show ?thesis
  proof cases
    case 1
    with assms(1) obtain xs where w: "width = choiceWidth divs 0"
      and rows: "choiceRows width divs 0 0 = (divs', xs, height)"
      by (auto simp: layoutNode_def layoutChoice_def Let_def split: prod.splits)
    from choiceRows_nonneg [OF rows] assms(2) have "0 \<le> height" by blast
    with w choiceWidth_nonneg [of 0 divs] show ?thesis by simp
  next
    case 2
    with assms(1) obtain d rest where "divs = d # rest" by (cases divs) (auto simp: layoutNode_def)
    with 2 assms show ?thesis by (auto simp: layoutNode_def Let_def)
  next
    case 3
    with assms(1) have l: "layoutSequence divs = (divs', sps, width, height)"
      by (simp add: layoutNode_def)
    from layoutSequence_size(1) [OF l] sum_list_nonneg_int [of divs offsetWidth] assms(2)
    have "0 \<le> width" by simp
    moreover from l have "height = sequenceHeight divs 0"
      by (auto simp: layoutSequence_def Let_def split: prod.splits)
    with sequenceHeight_nonneg [of 0 divs] have "0 \<le> height" by simp
    ultimately show ?thesis by simp
  qed
qed

lemma mapM_nth:
  "mapM f xs = Inr ys \<Longrightarrow> length ys = length xs \<and> (\<forall>i < length xs. f (xs ! i) = Inr (ys ! i))"
proof (induction xs arbitrary: ys)
  case Nil
  then show ?case by simp
next
  case (Cons x xs)
  from Cons.prems obtain y ys' where y: "f x = Inr y" and ys': "mapM f xs = Inr ys'" and ys: "ys = y # ys'"
    by (auto split: sum.splits)
  from Cons.IH [OF ys'] y ys show ?case by (auto simp: nth_Cons split: nat.splits)
qed

lemma appendToDOM_nonneg:
  "appendToDOM measured v st = Inr (d, s) \<Longrightarrow> 0 \<le> offsetWidth d \<and> 0 \<le> offsetHeight d"
proof (induction measured v st arbitrary: d s rule: appendToDOM.induct)
  case (1 measured node0 opt_stats)
  show ?case
  proof (cases node0)
    case (Str t)
    with "1.prems" show ?thesis by (auto simp: appendToDOM_Str leafDiv_def Let_def)
  next
    case (Obj opr c k)
    show ?thesis
    proof (cases "opr = ''html''")
      case True
      with Obj "1.prems" show ?thesis by (auto simp: appendToDOM_html leafDiv_def Let_def)
    next
      case False
      with Obj "1.prems" obtain cs where k: "k = Some cs"
        by (cases k) (auto simp: appendToDOM_no_children)
      from Obj k False "1.prems" obtain rs divs' sps width height where
        rs: "mapM (\<lambda>c. appendToDOM measured c None) cs = Inr rs"
        and lay: "layoutNode opr (map fst rs) = Inr (divs', sps, width, height)"
        and d: "offsetWidth d = width" "offsetHeight d = height"
        by (auto simp: appendToDOM_composite split: sum.splits prod.splits)
      have "0 \<le> offsetWidth e \<and> 0 \<le> offsetHeight e" if "e \<in> set (map fst rs)" for e
      proof -
        from that obtain j where j: "j < length rs" "e = fst (rs ! j)"
          by (auto simp: in_set_conv_nth)
        from mapM_nth [OF rs] j have run: "appendToDOM measured (cs ! j) None = Inr (rs ! j)"
          and jc: "j < length cs" by auto
        have "toNode node0 = Inr (Obj opr c k)" using Obj by simp
        from "1.IH" [OF this _ _ _ , of cs "cs ! j" e "snd (rs ! j)"] False k jc run j(2)
        show ?thesis by simp
      qed
      with layoutNode_nonneg [OF lay] d show ?thesis by simp
    qed
  qed (use "1.prems" in \<open>simp_all add: appendToDOM_invalid\<close>)
qed

lemma mapM_results_nonneg:
  assumes "mapM (\<lambda>c. appendToDOM measured c None) cs = Inr rs"
  shows "\<forall>e \<in> set (map fst rs). 0 \<le> offsetWidth e \<and> 0 \<le> offsetHeight e"
proof
  fix e assume "e \<in> set (map fst rs)"
  then obtain j where j: "j < length rs" "e = fst (rs ! j)"
    by (auto simp: in_set_conv_nth)
  with mapM_nth [OF assms] have "appendToDOM measured (cs ! j) None = Inr (e, snd (rs ! j))"
    by simp
  then show "0 \<le> offsetWidth e \<and> 0 \<le> offsetHeight e" by (rule appendToDOM_nonneg)
qed

lemma Max_nonneg_list:
  assumes "xs \<noteq> []" "\<forall>x \<in> set xs. (0::int) \<le> x"
  shows "Max (set (0 # xs)) = Max (set xs)"
  using Max_nonneg_add [OF assms, of 0] by simp

lemma sequenceRow_left:
  "sequenceRow height divs width = (divs', arrows, width') \<Longrightarrow>
     length divs' = length divs \<and>
     (\<forall>k < length divs.
        style (divs' ! k) ''left'' =
          Some (Px (width + sum_list (map (\<lambda>w. w + 16) (take k (map offsetWidth divs))))))"
proof (induction divs arbitrary: width divs' arrows width')
  case Nil
  then show ?case by simp
next
  case (Cons d ds)
  from Cons.prems obtain ds' arrows' where
    rest: "sequenceRow height ds (width + offsetWidth d + 16) = (ds', arrows', width')"
    and divs': "divs' = setStyle ''top'' (Px (shr1 (height - offsetHeight d)))
                  (setStyle ''left'' (Px width) d) # ds'"
    by (auto simp: Let_def split: prod.splits)
  from Cons.IH [OF rest] have ih: "length ds' = length ds"
    "\<And>k. k < length ds \<Longrightarrow> style (ds' ! k) ''left'' =
       Some (Px (width + offsetWidth d + 16 + sum_list (map (\<lambda>w. w + 16) (take k (map offsetWidth ds)))))"
    by simp_all
  have "style (divs' ! k) ''left'' =
      Some (Px (width + sum_list (map (\<lambda>w. w + 16) (take k (map offsetWidth (d # ds))))))"
    if "k < length (d # ds)" for k
  proof (cases k)
    case 0
    with divs' show ?thesis by simp
  next
    case (Suc k')
    with that have "k' < length ds" by simp
    from ih(2) [OF this] Suc divs' show ?thesis by (simp add: add.assoc)
  qed
  with ih(1) divs' show ?case by simp
qed

text \<open>
  C5. When the children of a \<^verbatim>\<open>'.'\<close> node (Sequence) have been rendered, the node is
  rendered, its width is the sum of the widths of its children and 16 for each of the
  \<open>n + 1\<close> gaps, and with at least one child its height is the greatest height of a
  child. The element is given this size as its style. The gaps lie before the first
  child, between two adjacent children and after the last one: child \<open>i\<close> is placed at
  the left position \<open>itemX ws i\<close>. Children of widths 10, 20, 30 and heights 5, 8, 6 give
  the width 124 and the height 8, and stand at 16, 42 and 78.
\<close>

theorem sequence_size:
  assumes "mapM (\<lambda>c. appendToDOM measured c None) cs = Inr rs"
  shows "\<exists>d s. appendToDOM measured (Obj ''.'' c (Some cs)) st = Inr (d, s) \<and>
     offsetWidth d = sum_list (map (offsetWidth \<circ> fst) rs) + 16 * (int (length cs) + 1) \<and>
     (cs \<noteq> [] \<longrightarrow> offsetHeight d = Max (set (map (offsetHeight \<circ> fst) rs))) \<and>
     style d ''width'' = Some (Px (offsetWidth d)) \<and>
     style d ''height'' = Some (Px (offsetHeight d)) \<and>
     length (childDivs d) = length cs \<and>
     (\<forall>i < length cs.
        style (childDivs d ! i) ''left'' = Some (Px (itemX (map (offsetWidth \<circ> fst) rs) i)))"
proof -
  obtain divs' sps width height where
    lay: "layoutSequence (map fst rs) = (divs', sps, width, height)"
    by (cases "layoutSequence (map fst rs)") auto
  let ?d = "Div [''display'' \<mapsto> Css ''inline-block'', ''position'' \<mapsto> Css ''absolute'',
                 ''width'' \<mapsto> Px width, ''height'' \<mapsto> Px height] None divs' sps width height"
  have run: "appendToDOM measured (Obj ''.'' c (Some cs)) st =
      Inr (?d, map_option (\<lambda>s. s\<lparr>stats_width := Some width, stats_height := Some height\<rparr>) st)"
    using assms lay by (simp add: appendToDOM_composite layoutNode_def)
  from mapM_nth [OF assms] have len: "length rs = length cs" by simp
  from layoutSequence_size(1) [OF lay] len
  have w: "width = sum_list (map (offsetWidth \<circ> fst) rs) + 16 * (int (length cs) + 1)"
    by (simp add: comp_def)
  have h: "height = Max (set (map (offsetHeight \<circ> fst) rs))" if "cs \<noteq> []"
  proof -
    from that len have ne: "map (offsetHeight \<circ> fst) rs \<noteq> []" by auto
    from mapM_results_nonneg [OF assms]
    have "\<forall>x \<in> set (map (offsetHeight \<circ> fst) rs). 0 \<le> x" by auto
    from Max_nonneg_list [OF ne this] layoutSequence_size(2) [OF lay]
    show ?thesis by (simp add: comp_def)
  qed
  from lay obtain arrows where "sequenceRow height (map fst rs) 16 = (divs', arrows, width)"
    by (auto simp: layoutSequence_def Let_def split: prod.splits)
  from sequenceRow_left [OF this] len
  have left: "length divs' = length cs"
    "\<forall>i < length cs. style (divs' ! i) ''left'' = Some (Px (itemX (map (offsetWidth \<circ> fst) rs) i))"
    by (simp_all add: itemX_def comp_def)
  from run w h left show ?thesis by simp
qed

theorem sequence_size_witness:
  "mapM (\<lambda>c. appendToDOM (\<lambda>t. if t = ''a'' then (10, 5) else if t = ''b'' then (20, 8) else (30, 6)) c None)
     [Str ''a'', Str ''b'', Str ''c''] =
   Inr [(leafDiv (\<lambda>t. if t = ''a'' then (10, 5) else if t = ''b'' then (20, 8) else (30, 6)) (Some ''a''), None),
        (leafDiv (\<lambda>t. if t = ''a'' then (10, 5) else if t = ''b'' then (20, 8) else (30, 6)) (Some ''b''), None),
        (leafDiv (\<lambda>t. if t = ''a'' then (10, 5) else if t = ''b'' then (20, 8) else (30, 6)) (Some ''c''), None)] \<and>
   (\<exists>d s. appendToDOM (\<lambda>t. if t = ''a'' then (10, 5) else if t = ''b'' then (20, 8) else (30, 6))
       (Obj ''.'' None (Some [Str ''a'', Str ''b'', Str ''c''])) None = Inr (d, s) \<and>
     offsetWidth d = 124 \<and> offsetHeight d = 8 \<and>
     style (childDivs d ! 0) ''left'' = Some (Px 16) \<and>
     style (childDivs d ! 1) ''left'' = Some (Px 42) \<and>
     style (childDivs d ! 2) ''left'' = Some (Px 78))"
proof -
  let ?m = "\<lambda>t::string. if t = ''a'' then (10::nat, 5::nat) else if t = ''b'' then (20, 8) else (30, 6)"
  let ?cs = "[Str ''a'', Str ''b'', Str ''c'']"
  let ?rs = "[(leafDiv ?m (Some ''a''), None), (leafDiv ?m (Some ''b''), None),
              (leafDiv ?m (Some ''c''), None::stats option)]"
  have kids: "mapM (\<lambda>c. appendToDOM ?m c None) ?cs = Inr ?rs"
    by (simp add: appendToDOM_Str)
  have ws: "map (offsetWidth \<circ> fst) ?rs = [10, 20, 30]"
    and hs: "map (offsetHeight \<circ> fst) ?rs = [5, 8, 6]"
    by (simp_all add: leafDiv_def Let_def)
  from sequence_size [OF kids, of None None]
  obtain d s where run: "appendToDOM ?m (Obj ''.'' None (Some ?cs)) None = Inr (d, s)"
    and w: "offsetWidth d = sum_list (map (offsetWidth \<circ> fst) ?rs) + 16 * (int (length ?cs) + 1)"
    and h: "offsetHeight d = Max (set (map (offsetHeight \<circ> fst) ?rs))"
    and left: "\<And>i. i < length ?cs \<Longrightarrow>
        style (childDivs d ! i) ''left'' = Some (Px (itemX (map (offsetWidth \<circ> fst) ?rs) i))"
    by auto
  from w h have "offsetWidth d = 124" "offsetHeight d = 8"
    unfolding ws hs by simp_all
  moreover from left [of 0] left [of 1] left [of 2]
  have "style (childDivs d ! 0) ''left'' = Some (Px 16)"
    "style (childDivs d ! 1) ''left'' = Some (Px 42)"
    "style (childDivs d ! 2) ''left'' = Some (Px 78)"
    unfolding ws by (simp_all add: itemX_def)
  ultimately show ?thesis using kids run by (intro conjI exI [of _ d] exI [of _ s]) simp_all
qed

text \<open>
  C6. When the children of a \<^verbatim>\<open>'|'\<close> node (Choice) with at least one child have been
  rendered, the node is rendered, its width is the greatest width of a child and 32, and
  its height is the sum of the heights of its children and 16 for each of the \<open>n - 1\<close>
  gaps between rows. The element is given this size as its style. Children of widths
  40, 50 and heights 10, 20 give the width 82 and the height 46.
\<close>

theorem choice_size:
  assumes "mapM (\<lambda>c. appendToDOM measured c None) cs = Inr rs" and "cs \<noteq> []"
  shows "\<exists>d s. appendToDOM measured (Obj ''|'' c (Some cs)) st = Inr (d, s) \<and>
     offsetWidth d = Max (set (map (offsetWidth \<circ> fst) rs)) + 32 \<and>
     offsetHeight d = sum_list (map (offsetHeight \<circ> fst) rs) + 16 * (int (length cs) - 1) \<and>
     style d ''width'' = Some (Px (offsetWidth d)) \<and>
     style d ''height'' = Some (Px (offsetHeight d))"
proof -
  obtain divs' sps width height where
    lay: "layoutChoice (map fst rs) = (divs', sps, width, height)"
    by (cases "layoutChoice (map fst rs)") auto
  let ?d = "Div [''display'' \<mapsto> Css ''inline-block'', ''position'' \<mapsto> Css ''absolute'',
                 ''width'' \<mapsto> Px width, ''height'' \<mapsto> Px height] None divs' sps width height"
  have run: "appendToDOM measured (Obj ''|'' c (Some cs)) st =
      Inr (?d, map_option (\<lambda>s. s\<lparr>stats_width := Some width, stats_height := Some height\<rparr>) st)"
    using assms lay by (simp add: appendToDOM_composite layoutNode_def)
  from mapM_nth [OF assms(1)] have len: "length rs = length cs" by simp
  with assms(2) have ne: "map fst rs \<noteq> []" by auto
  from lay obtain xs where w0: "width = choiceWidth (map fst rs) 0"
    and rows: "choiceRows width (map fst rs) 0 0 = (divs', xs, height)"
    by (auto simp: layoutChoice_def Let_def split: prod.splits)
  from mapM_results_nonneg [OF assms(1)]
  have nonneg: "\<forall>x \<in> set (map (offsetWidth \<circ> fst) rs). 0 \<le> x" by auto
  from ne have ne': "map (offsetWidth \<circ> fst) rs \<noteq> []" by simp
  have "width = Max (set (0 # map (\<lambda>x. 32 + x) (map (offsetWidth \<circ> fst) rs)))"
    using w0 by (simp add: choiceWidth_Max comp_def)
  with Max_nonneg_add [OF ne' nonneg, of 32]
  have w: "width = Max (set (map (offsetWidth \<circ> fst) rs)) + 32" by simp
  from choiceRows_first [OF rows] ne len
  have h: "height = sum_list (map (offsetHeight \<circ> fst) rs) + 16 * (int (length cs) - 1)"
    by (simp add: comp_def)
  from run w h show ?thesis by simp
qed

theorem choice_size_witness:
  "mapM (\<lambda>c. appendToDOM (\<lambda>t. if t = ''a'' then (40, 10) else (50, 20)) c None)
     [Str ''a'', Str ''b''] =
   Inr [(leafDiv (\<lambda>t. if t = ''a'' then (40, 10) else (50, 20)) (Some ''a''), None),
        (leafDiv (\<lambda>t. if t = ''a'' then (40, 10) else (50, 20)) (Some ''b''), None)] \<and>
   [Str ''a'', Str ''b''] \<noteq> [] \<and>
   (\<exists>d s. appendToDOM (\<lambda>t. if t = ''a'' then (40, 10) else (50, 20))
       (Obj ''|'' None (Some [Str ''a'', Str ''b''])) None = Inr (d, s) \<and>
     offsetWidth d = 82 \<and> offsetHeight d = 46)"
proof -
  let ?m = "\<lambda>t::string. if t = ''a'' then (40::nat, 10::nat) else (50, 20)"
  let ?cs = "[Str ''a'', Str ''b'']"
  let ?rs = "[(leafDiv ?m (Some ''a''), None), (leafDiv ?m (Some ''b''), None::stats option)]"
  have kids: "mapM (\<lambda>c. appendToDOM ?m c None) ?cs = Inr ?rs"
    by (simp add: appendToDOM_Str)
  have ne: "?cs \<noteq> []" by simp
  have "Max (set (map (offsetWidth \<circ> fst) ?rs)) + 32 = 82"
    by (simp add: leafDiv_def Let_def)
  moreover have "sum_list (map (offsetHeight \<circ> fst) ?rs) + 16 * (int (length ?cs) - 1) = 46"
    by (simp add: leafDiv_def Let_def)
  moreover note choice_size [OF kids ne, of None None]
  ultimately show ?thesis using kids by auto
qed

section \<open>Positions and connectors of a choice\<close>

lemma shr1_nonneg: "0 \<le> x \<Longrightarrow> x < 2 ^ 31 \<Longrightarrow> shr1 x = x div 2"
proof -
  assume "0 \<le> x" "x < 2 ^ 31"
  moreover have "- (2 ^ 31) \<le> (0::int)" by simp
  ultimately show ?thesis by (intro shr1_div2) simp_all
qed

lemma half_covers: "\<bar>h\<bar> \<le> 2 * ((\<bar>h\<bar> + 1) div 2)" for h :: int
  by presburger

lemma rightArrow_connects:
  assumes "\<bar>y1 - y0\<bar> + 1 < 2 ^ 31"
  shows "connects (rightArrow x0 (x1 - x0) y0 (y1 - y0) (Some j)) (x0, y0) j (x1, y1)"
proof -
  have "0 \<le> \<bar>y1 - y0\<bar> + 1" by simp
  from shr1_nonneg [OF this assms] have hh: "shr1 (\<bar>y1 - y0\<bar> + 1) = (\<bar>y1 - y0\<bar> + 1) div 2" .
  show ?thesis
  proof (cases "y1 = y0")
    case True
    then show ?thesis by (simp add: rightArrow_def)
  next
    case False
    show ?thesis
    proof (cases "y0 < y1")
      case True
      then show ?thesis by (simp add: rightArrow_def Let_def hh)
    next
      case gt: False
      with False have lt: "y1 < y0" by simp
      with hh have hh': "shr1 (y0 - y1 + 1) = (y0 - y1 + 1) div 2" by simp
      from lt half_covers [of "y1 - y0"] have "y0 \<le> 2 * ((y0 - y1 + 1) div 2) + y1" by simp
      with lt show ?thesis
        by (simp add: rightArrow_def Let_def hh')
    qed
  qed
qed

lemma rowY_nonneg: "\<forall>h \<in> set hs. 0 \<le> h \<Longrightarrow> 0 \<le> rowY hs i"
  unfolding rowY_def by (rule sum_list_nonneg) (auto dest: in_set_takeD)

lemma row_within:
  "\<forall>h \<in> set hs. 0 \<le> h \<Longrightarrow> i < length hs \<Longrightarrow>
     rowY hs i + hs ! i \<le> sum_list hs + 16 * (int (length hs) - 1)"
proof (induction hs arbitrary: i)
  case Nil
  then show ?case by simp
next
  case (Cons h hs)
  show ?case
  proof (cases i)
    case 0
    from Cons.prems(1) have "0 \<le> sum_list hs" by (intro sum_list_nonneg) simp
    with 0 show ?thesis by (simp add: rowY_0)
  next
    case (Suc k)
    with Cons.prems have "rowY hs k + hs ! k \<le> sum_list hs + 16 * (int (length hs) - 1)"
      by (intro Cons.IH) simp_all
    with Suc show ?thesis by (simp add: rowY_Suc)
  qed
qed

lemma center_distance:
  assumes "0 \<le> y" "0 \<le> h" "y + h \<le> H" "H < 2 ^ 31"
  shows "\<bar>y + h div 2 - H div 2\<bar> + 1 < (2::int) ^ 31"
proof -
  have "(2::int) ^ 31 = 2147483648" by simp
  with assms show ?thesis by (simp only:)
qed

text \<open>
  C7. When the options of a \<^verbatim>\<open>'|'\<close> node (Choice) have been rendered with the widths
  \<open>ws\<close> and the heights \<open>hs\<close>, and the width and the height of the choice are below
  \<open>2 ^ 31\<close> (the range in which \<^verbatim>\<open>>> 1\<close> halves), the node is rendered and for every
  option \<open>i\<close>: its top is the running position that starts at 0 and advances by the
  height of an option and 16; its left is half of the width of the choice less its own
  width; its entry connector leads from \<open>(0, centerY)\<close>, with \<open>centerY\<close> half the height
  of the choice, to the left edge of the option at its vertical centre, changing level 8
  from the left edge; and its exit connector leads from the right edge of the option at
  its vertical centre to \<open>(width, centerY)\<close>, changing level 8 from the right edge. The
  connectors are the \<^verbatim>\<open>SPAN\<close>s of the element, option by option.
\<close>

theorem choice_positions:
  assumes kids: "mapM (\<lambda>c. appendToDOM measured c None) cs = Inr rs"
    and ws: "ws = map (offsetWidth \<circ> fst) rs"
    and hs: "hs = map (offsetHeight \<circ> fst) rs"
    and bw: "Max (set ws) + 32 < 2 ^ 31"
    and bh: "sum_list hs + 16 * (int (length hs) - 1) < 2 ^ 31"
  shows "\<exists>d s. appendToDOM measured (Obj ''|'' c (Some cs)) st = Inr (d, s) \<and>
     length (childDivs d) = length cs \<and>
     (cs \<noteq> [] \<longrightarrow>
        offsetWidth d = Max (set ws) + 32 \<and>
        offsetHeight d = sum_list hs + 16 * (int (length hs) - 1)) \<and>
     childSpans d = concat (map (\<lambda>i. entryConnector ws hs i @ exitConnector ws hs i) [0..<length cs]) \<and>
     (\<forall>i < length cs.
        style (childDivs d ! i) ''top'' = Some (Px (rowY hs i)) \<and>
        style (childDivs d ! i) ''left'' = Some (Px (optionX ws i)) \<and>
        connects (entryConnector ws hs i) (0, choiceCenterY hs) 8 (optionX ws i, optionCenter hs i) \<and>
        connects (exitConnector ws hs i) (optionX ws i + ws ! i, optionCenter hs i)
          (Max (set ws) + 32 - 8) (Max (set ws) + 32, choiceCenterY hs))"
proof (cases "cs = []")
  case True
  with kids have "rs = []" by simp
  with True show ?thesis
    by (simp add: appendToDOM_composite layoutNode_def layoutChoice_def)
next
  case ne: False
  let ?n = "length cs"
  let ?W = "Max (set ws) + 32"
  let ?H = "sum_list hs + 16 * (int (length hs) - 1)"
  obtain divs' sps width height where
    lay: "layoutChoice (map fst rs) = (divs', sps, width, height)"
    by (cases "layoutChoice (map fst rs)") auto
  let ?d = "Div [''display'' \<mapsto> Css ''inline-block'', ''position'' \<mapsto> Css ''absolute'',
                 ''width'' \<mapsto> Px width, ''height'' \<mapsto> Px height] None divs' sps width height"
  have run: "appendToDOM measured (Obj ''|'' c (Some cs)) st =
      Inr (?d, map_option (\<lambda>s. s\<lparr>stats_width := Some width, stats_height := Some height\<rparr>) st)"
    using kids lay by (simp add: appendToDOM_composite layoutNode_def)
  from mapM_nth [OF kids] have len: "length rs = ?n" by simp
  with ws hs have lens: "length ws = ?n" "length hs = ?n" by simp_all
  from len ne have rs_ne: "map fst rs \<noteq> []" by auto
  from lay obtain xs where w0: "width = choiceWidth (map fst rs) 0"
    and rows: "choiceRows width (map fst rs) 0 0 = (divs', xs, height)"
    and sps: "sps = choiceArrows width (shr1 height) xs"
    by (auto simp: layoutChoice_def Let_def split: prod.splits)
  from mapM_results_nonneg [OF kids] ws hs
  have nonneg_w: "\<forall>x \<in> set ws. 0 \<le> x" and nonneg_h: "\<forall>x \<in> set hs. 0 \<le> x" by auto
  from rs_ne ws have ws_ne: "ws \<noteq> []" by simp
  have "width = Max (set (0 # map (\<lambda>x. 32 + x) ws))"
    using w0 ws by (simp add: choiceWidth_Max comp_def)
  with Max_nonneg_add [OF ws_ne nonneg_w, of 32] have width: "width = ?W" by simp
  from choiceRows_first [OF rows] rs_ne len hs
  have ldivs: "length divs' = ?n" and lxs: "length xs = ?n"
    and height: "height = ?H"
    and row: "\<And>k. k < ?n \<Longrightarrow>
        divs' ! k =
          setStyle ''left'' (Px (shr1 (width - offsetWidth (map fst rs ! k))))
            (setStyle ''top'' (Px (rowY hs k)) (map fst rs ! k)) \<and>
        xs ! k =
          (shr1 (width - offsetWidth (map fst rs ! k)),
           shr1 (width - offsetWidth (map fst rs ! k)) + offsetWidth (map fst rs ! k),
           rowY hs k + shr1 (offsetHeight (map fst rs ! k)))"
    by (simp_all add: comp_def)
  have H_nonneg: "0 \<le> ?H"
  proof -
    from ne lens have pos: "0 < length hs" by simp
    then have "hs ! 0 \<in> set hs" by simp
    with nonneg_h have "0 \<le> hs ! 0" by blast
    with row_within [OF nonneg_h pos] show ?thesis by (simp add: rowY_0)
  qed
  have cy: "shr1 height = choiceCenterY hs"
    using height H_nonneg bh by (simp add: choiceCenterY_def shr1_nonneg)
  have wk: "offsetWidth (map fst rs ! k) = ws ! k" if "k < ?n" for k
    using that len ws by simp
  have hk: "offsetHeight (map fst rs ! k) = hs ! k" if "k < ?n" for k
    using that len hs by simp
  have xk: "shr1 (width - ws ! k) = optionX ws k" if k: "k < ?n" for k
  proof -
    from k lens have inw: "ws ! k \<in> set ws" by simp
    with nonneg_w have w_pos: "0 \<le> ws ! k" by blast
    from inw have "ws ! k \<le> Max (set ws)" by simp
    with w_pos bw have "0 \<le> ?W - ws ! k" "?W - ws ! k < 2 ^ 31" by simp_all
    then show ?thesis unfolding width by (simp add: optionX_def shr1_nonneg)
  qed
  have within: "0 \<le> rowY hs k \<and> 0 \<le> hs ! k \<and> rowY hs k + hs ! k \<le> ?H" if k: "k < ?n" for k
  proof -
    from k lens have "hs ! k \<in> set hs" by simp
    with nonneg_h have "0 \<le> hs ! k" by blast
    moreover from k lens have "rowY hs k + hs ! k \<le> ?H" by (intro row_within nonneg_h) simp
    moreover from rowY_nonneg [OF nonneg_h, of k] have "0 \<le> rowY hs k" .
    ultimately show ?thesis by simp
  qed
  have ck: "rowY hs k + shr1 (hs ! k) = optionCenter hs k" if k: "k < ?n" for k
  proof -
    from within [OF k] bh have "0 \<le> hs ! k" "hs ! k < 2 ^ 31" by linarith+
    then show ?thesis by (simp add: optionCenter_def shr1_nonneg)
  qed
  have dk: "\<bar>optionCenter hs k - choiceCenterY hs\<bar> + 1 < 2 ^ 31" if k: "k < ?n" for k
  proof -
    from within [OF k] have "0 \<le> rowY hs k" "0 \<le> hs ! k" "rowY hs k + hs ! k \<le> ?H" by simp_all
    from center_distance [OF this bh] show ?thesis
      by (simp add: optionCenter_def choiceCenterY_def)
  qed
  have xs: "xs = map (\<lambda>k. (optionX ws k, optionX ws k + ws ! k, optionCenter hs k)) [0..<?n]"
  proof (rule nth_equalityI)
    show "length xs = length (map (\<lambda>k. (optionX ws k, optionX ws k + ws ! k, optionCenter hs k)) [0..<?n])"
      using lxs by simp
  next
    fix k assume "k < length xs"
    with lxs have k: "k < ?n" by simp
    from row [OF k] have "xs ! k =
          (shr1 (width - offsetWidth (map fst rs ! k)),
           shr1 (width - offsetWidth (map fst rs ! k)) + offsetWidth (map fst rs ! k),
           rowY hs k + shr1 (offsetHeight (map fst rs ! k)))" by (rule conjunct2)
    then have "xs ! k = (optionX ws k, optionX ws k + ws ! k, optionCenter hs k)"
      by (simp only: wk [OF k] hk [OF k] xk [OF k] ck [OF k])
    moreover have "map (\<lambda>k. (optionX ws k, optionX ws k + ws ! k, optionCenter hs k)) [0..<?n] ! k =
        (optionX ws k, optionX ws k + ws ! k, optionCenter hs k)"
      using k by simp
    ultimately
    show "xs ! k = map (\<lambda>k. (optionX ws k, optionX ws k + ws ! k, optionCenter hs k)) [0..<?n] ! k"
      by simp
  qed
  have spans: "sps = concat (map (\<lambda>i. entryConnector ws hs i @ exitConnector ws hs i) [0..<?n])"
    unfolding sps choiceArrows_concat xs cy width
    by (simp add: comp_def entryConnector_def exitConnector_def)
  have each: "style (divs' ! k) ''top'' = Some (Px (rowY hs k)) \<and>
      style (divs' ! k) ''left'' = Some (Px (optionX ws k)) \<and>
      connects (entryConnector ws hs k) (0, choiceCenterY hs) 8 (optionX ws k, optionCenter hs k) \<and>
      connects (exitConnector ws hs k) (optionX ws k + ws ! k, optionCenter hs k)
        (?W - 8) (?W, choiceCenterY hs)" if k: "k < ?n" for k
  proof -
    from row [OF k] have "divs' ! k =
          setStyle ''left'' (Px (shr1 (width - offsetWidth (map fst rs ! k))))
            (setStyle ''top'' (Px (rowY hs k)) (map fst rs ! k))" by (rule conjunct1)
    then have "divs' ! k =
          setStyle ''left'' (Px (optionX ws k)) (setStyle ''top'' (Px (rowY hs k)) (map fst rs ! k))"
      by (simp only: wk [OF k] xk [OF k])
    then have pos: "style (divs' ! k) ''top'' = Some (Px (rowY hs k))"
      "style (divs' ! k) ''left'' = Some (Px (optionX ws k))" by simp_all
    note d1 = dk [OF k]
    then have d2: "\<bar>choiceCenterY hs - optionCenter hs k\<bar> + 1 < 2 ^ 31"
      by (simp only: abs_minus_commute)
    from rightArrow_connects [OF d1, of 0 "optionX ws k" 8]
    have entry: "connects (entryConnector ws hs k) (0, choiceCenterY hs) 8 (optionX ws k, optionCenter hs k)"
      by (simp add: entryConnector_def)
    from rightArrow_connects [OF d2, of "optionX ws k + ws ! k" ?W "?W - 8"]
    have "connects (exitConnector ws hs k) (optionX ws k + ws ! k, optionCenter hs k)
        (?W - 8) (?W, choiceCenterY hs)"
      by (simp add: exitConnector_def)
    with pos entry show ?thesis by simp
  qed
  from run ldivs spans each width height show ?thesis by simp
qed

theorem choice_positions_witness:
  "mapM (\<lambda>c. appendToDOM (\<lambda>t. if t = ''a'' then (40, 10) else (50, 20)) c None)
     [Str ''a'', Str ''b''] =
   Inr [(leafDiv (\<lambda>t. if t = ''a'' then (40, 10) else (50, 20)) (Some ''a''), None),
        (leafDiv (\<lambda>t. if t = ''a'' then (40, 10) else (50, 20)) (Some ''b''), None)] \<and>
   Max (set [40, 50 :: int]) + 32 < 2 ^ 31 \<and>
   sum_list [10, 20 :: int] + 16 * (int (length [10, 20 :: int]) - 1) < 2 ^ 31 \<and>
   (\<exists>d s. appendToDOM (\<lambda>t. if t = ''a'' then (40, 10) else (50, 20))
       (Obj ''|'' None (Some [Str ''a'', Str ''b''])) None = Inr (d, s) \<and>
     offsetWidth d = 82 \<and> offsetHeight d = 46 \<and>
     style (childDivs d ! 0) ''top'' = Some (Px 0) \<and>
     style (childDivs d ! 0) ''left'' = Some (Px 21) \<and>
     style (childDivs d ! 1) ''top'' = Some (Px 26) \<and>
     style (childDivs d ! 1) ''left'' = Some (Px 16) \<and>
     childSpans d =
       entryConnector [40, 50] [10, 20] 0 @ exitConnector [40, 50] [10, 20] 0 @
       entryConnector [40, 50] [10, 20] 1 @ exitConnector [40, 50] [10, 20] 1 \<and>
     connects (entryConnector [40, 50] [10, 20] 0) (0, 23) 8 (21, 5) \<and>
     connects (exitConnector [40, 50] [10, 20] 0) (61, 5) 74 (82, 23) \<and>
     connects (entryConnector [40, 50] [10, 20] 1) (0, 23) 8 (16, 36) \<and>
     connects (exitConnector [40, 50] [10, 20] 1) (66, 36) 74 (82, 23))"
proof -
  let ?m = "\<lambda>t::string. if t = ''a'' then (40::nat, 10::nat) else (50, 20)"
  let ?cs = "[Str ''a'', Str ''b'']"
  let ?rs = "[(leafDiv ?m (Some ''a''), None), (leafDiv ?m (Some ''b''), None::stats option)]"
  let ?ws = "[40, 50 :: int]"
  let ?hs = "[10, 20 :: int]"
  have kids: "mapM (\<lambda>c. appendToDOM ?m c None) ?cs = Inr ?rs"
    by (simp add: appendToDOM_Str)
  have ws: "?ws = map (offsetWidth \<circ> fst) ?rs" and hs: "?hs = map (offsetHeight \<circ> fst) ?rs"
    by (simp_all add: leafDiv_def Let_def)
  have bw: "Max (set ?ws) + 32 < 2 ^ 31"
    and bh: "sum_list ?hs + 16 * (int (length ?hs) - 1) < 2 ^ 31"
    by simp_all
  from choice_positions [OF kids ws hs bw bh, of None None]
  obtain d s where run: "appendToDOM ?m (Obj ''|'' None (Some ?cs)) None = Inr (d, s)"
    and size: "offsetWidth d = Max (set ?ws) + 32"
      "offsetHeight d = sum_list ?hs + 16 * (int (length ?hs) - 1)"
    and sps: "childSpans d =
      concat (map (\<lambda>i. entryConnector ?ws ?hs i @ exitConnector ?ws ?hs i) [0..<length ?cs])"
    and each: "\<And>i. i < length ?cs \<Longrightarrow>
        style (childDivs d ! i) ''top'' = Some (Px (rowY ?hs i)) \<and>
        style (childDivs d ! i) ''left'' = Some (Px (optionX ?ws i)) \<and>
        connects (entryConnector ?ws ?hs i) (0, choiceCenterY ?hs) 8 (optionX ?ws i, optionCenter ?hs i) \<and>
        connects (exitConnector ?ws ?hs i) (optionX ?ws i + ?ws ! i, optionCenter ?hs i)
          (Max (set ?ws) + 32 - 8) (Max (set ?ws) + 32, choiceCenterY ?hs)"
    by auto
  have vals: "rowY ?hs 0 = 0" "rowY ?hs 1 = 26" "optionX ?ws 0 = 21" "optionX ?ws 1 = 16"
    "optionCenter ?hs 0 = 5" "optionCenter ?hs 1 = 36" "choiceCenterY ?hs = 23"
    by (simp_all add: rowY_def optionX_def optionCenter_def choiceCenterY_def)
  have upt: "[0..<length ?cs] = [0, 1]" by (simp add: upt_rec)
  from each [of 0] each [of 1] vals
  have "style (childDivs d ! 0) ''top'' = Some (Px 0)"
    "style (childDivs d ! 0) ''left'' = Some (Px 21)"
    "style (childDivs d ! 1) ''top'' = Some (Px 26)"
    "style (childDivs d ! 1) ''left'' = Some (Px 16)"
    "connects (entryConnector ?ws ?hs 0) (0, 23) 8 (21, 5)"
    "connects (exitConnector ?ws ?hs 0) (61, 5) 74 (82, 23)"
    "connects (entryConnector ?ws ?hs 1) (0, 23) 8 (16, 36)"
    "connects (exitConnector ?ws ?hs 1) (66, 36) 74 (82, 23)"
    by simp_all
  moreover from sps upt have "childSpans d =
       entryConnector ?ws ?hs 0 @ exitConnector ?ws ?hs 0 @
       entryConnector ?ws ?hs 1 @ exitConnector ?ws ?hs 1" by simp
  moreover from size have "offsetWidth d = 82" "offsetHeight d = 46" by simp_all
  ultimately show ?thesis using kids run bw bh by (intro conjI exI [of _ d] exI [of _ s]) simp_all
qed

end
